theory Spec2Isabelle
  imports Main "HOL-Library.Word"
begin

unbundle bit_operations_syntax

section \<open>Tensors, arguments and failures\<close>

text \<open>
  A tensor of the expression graph is its shape together with its defining expression, a
  function of the indices. Indices are the integers of the index arithmetic. Reading a tensor
  evaluates the defining expression at the index it is given: there is no bounds check, so a
  read outside the declared shape of an input tensor yields whatever the function holds
  there (the model of an unchecked read of foreign memory).
\<close>

type_synonym uint8 = "8 word"
type_synonym word16 = "16 word"

record 'a tensor4 =
  shape4 :: "int \<times> int \<times> int \<times> int"
  at4 :: "int \<Rightarrow> int \<Rightarrow> int \<Rightarrow> int \<Rightarrow> 'a"

record 'a tensor5 =
  shape5 :: "int \<times> int \<times> int \<times> int \<times> int"
  at5 :: "int \<Rightarrow> int \<Rightarrow> int \<Rightarrow> int \<Rightarrow> int \<Rightarrow> 'a"

record 'a tensor6 =
  shape6 :: "int \<times> int \<times> int \<times> int \<times> int \<times> int"
  at6 :: "int \<Rightarrow> int \<Rightarrow> int \<Rightarrow> int \<Rightarrow> int \<Rightarrow> int \<Rightarrow> 'a"

record 'a tensor7 =
  shape7 :: "int \<times> int \<times> int \<times> int \<times> int \<times> int \<times> int"
  at7 :: "int \<Rightarrow> int \<Rightarrow> int \<Rightarrow> int \<Rightarrow> int \<Rightarrow> int \<Rightarrow> int \<Rightarrow> 'a"

text \<open>The weight tensor is unpacked 4-D or pre-packed 5-D (\<open>len(kernel.shape) == 4\<close> or not).\<close>

datatype kernel = Kernel4 "int tensor4" | Kernel5 "uint8 tensor5"

datatype stride = StrideInt int | StridePair int int

datatype padding = PadInt int | Pad2 int int | Pad4 int int int int

text \<open>
  The three \<open>assert\<close> statements at the head of the entry point, and Python's
  \<open>ZeroDivisionError\<close> of \<open>//\<close>.
\<close>

datatype error =
  BatchSizeAssertion | PackDtypeAssertion | OutDtypeAssertion | ZeroDivisionError

text \<open>The nodes of the expression graph, in the order the entry point constructs them.\<close>

datatype node =
  Bitpack
  | KernelVec
  | KernelPad "int list" "int list"
  | DataPad "int list" "int list"
  | DataVec
  | ConvVec bool
  | Conv

section \<open>Configuration space\<close>

text \<open>
  Modelled from the spec: the autotuner's \<open>define_split\<close> is not part of the sources. With
  \<open>num_outputs=2\<close> a candidate is a pair (outer, inner) of split factors of the axis length,
  and the candidates that the \<open>filter\<close> argument rejects are dropped. \<open>x.size[-1]\<close> is the
  inner factor, the second component.
\<close>

definition split_candidates :: "int \<Rightarrow> (int \<times> int) list" where
  "split_candidates len =
     map (\<lambda>f. (len div int f, int f)) (filter (\<lambda>f. len mod int f = 0) [1..<Suc (nat len)])"

definition define_split :: "int \<Rightarrow> (int \<times> int \<Rightarrow> bool) \<Rightarrow> (int \<times> int) list" where
  "define_split len filt = filter filt (split_candidates len)"

definition tile_co_space :: "int \<Rightarrow> (int \<times> int) list" where
  "tile_co_space CO = define_split CO (\<lambda>x. snd x = 8)"

definition tile_oh_space :: "int \<Rightarrow> (int \<times> int) list" where
  "tile_oh_space OH = define_split OH (\<lambda>x. snd x \<ge> 2)"

definition tile_ow_space :: "int \<Rightarrow> (int \<times> int) list" where
  "tile_ow_space OW = define_split OW (\<lambda>x. snd x \<ge> 2)"

definition tile_ci_space :: "int \<Rightarrow> (int \<times> int) list" where
  "tile_ci_space CI_packed = define_split CI_packed (\<lambda>x. snd x = 8 \<or> snd x = 16)"

text \<open>
  The loop axes handed to \<open>define_reorder\<close>: the four output axes, the inner parts of the
  three tiled output axes, the reduction axes, and the two parts of the split input-channel
  reduction axis.
\<close>

datatype axis =
  AxN | AxOH | AxOW | AxCO | AxVH | AxVW | AxKH | AxKW | AxCI_O | AxKB | AxIB | AxVC | AxCI_I

definition reorder_0_axes :: "axis list" where
  "reorder_0_axes =
     [AxN, AxOH, AxOW, AxCO, AxVH, AxVW, AxKH, AxKW, AxCI_O, AxKB, AxIB, AxVC, AxCI_I]"

definition reorder_0_candidate :: "axis list list" where
  "reorder_0_candidate =
     [[AxN, AxOH, AxOW, AxCO, AxVH, AxVW, AxKH, AxKW, AxCI_O, AxKB, AxIB, AxVC, AxCI_I],
      [AxN, AxOH, AxOW, AxCO, AxVH, AxVW, AxKW, AxKH, AxCI_O, AxKB, AxIB, AxVC, AxCI_I]]"

text \<open>
  Modelled from the spec: with \<open>policy="candidate"\<close> the reorder space is the list of the
  given candidates, each kept as the permutation that takes the axes to the candidate; applying
  it to a list of axes reorders that list.
\<close>

fun index_of :: "'a list \<Rightarrow> 'a \<Rightarrow> nat" where
  "index_of [] a = 0"
| "index_of (x # xs) a = (if x = a then 0 else Suc (index_of xs a))"

definition define_reorder :: "axis list \<Rightarrow> axis list list \<Rightarrow> nat list list" where
  "define_reorder axes candidate = map (map (index_of axes)) candidate"

definition reorder_0_space :: "nat list list" where
  "reorder_0_space = define_reorder reorder_0_axes reorder_0_candidate"

definition apply_reorder :: "nat list \<Rightarrow> 'a list \<Rightarrow> 'a list" where
  "apply_reorder perm axes = map (\<lambda>i. axes ! i) perm"

record config =
  tile_co :: "int \<times> int"
  tile_oh :: "int \<times> int"
  tile_ow :: "int \<times> int"
  tile_ci :: "int \<times> int"
  reorder_0 :: "nat list"

section \<open>Extents\<close>

text \<open>
  Modelled from the spec: \<open>get_pad_tuple\<close> is not part of the sources. A scalar pads every
  side by that amount, a pair pads top and bottom by its first and left and right by its
  second component. The result is (top, left, bottom, right).
\<close>

definition get_pad_tuple :: "padding \<Rightarrow> int \<times> int \<times> int \<times> int" where
  "get_pad_tuple padding =
     (case padding of
        PadInt p \<Rightarrow> (p, p, p, p)
      | Pad2 ph pw \<Rightarrow> (ph, pw, ph, pw)
      | Pad4 t l d r \<Rightarrow> (t, l, d, r))"

definition pad_amounts :: "padding \<Rightarrow> int \<times> int \<times> int \<times> int" where
  "pad_amounts padding =
     (case padding of
        PadInt p \<Rightarrow> get_pad_tuple padding
      | Pad2 ph pw \<Rightarrow> get_pad_tuple padding
      | Pad4 TPAD LPAD DPAD RPAD \<Rightarrow> (TPAD, LPAD, DPAD, RPAD))"

definition strides :: "stride \<Rightarrow> int \<times> int" where
  "strides s = (case s of StridePair HSTR WSTR \<Rightarrow> (HSTR, WSTR) | StrideInt k \<Rightarrow> (k, k))"

text \<open>
  \<open>KH, KW, CI_packed, CO\<close> of the weight tensor: an unpacked kernel takes the packed channel
  count from the activation's channel count \<open>CI\<close>.
\<close>

definition kernel_extents :: "kernel \<Rightarrow> int \<Rightarrow> int \<times> int \<times> int \<times> int" where
  "kernel_extents kern CI =
     (case kern of
        Kernel4 k \<Rightarrow> (case shape4 k of (KH, KW, _, CO) \<Rightarrow> (KH, KW, CI div 8, CO))
      | Kernel5 k \<Rightarrow> (case shape5 k of (KH, KW, KB, CI_packed, CO) \<Rightarrow> (KH, KW, CI_packed, CO)))"

text \<open>The channel padding: the pair \<open>(CI_PAD, CI_packed)\<close> after lines 76 to 80.\<close>

definition channel_pad :: "int \<Rightarrow> int \<times> int" where
  "channel_pad CI_packed =
     (if CI_packed mod 8 \<noteq> 0 then (CI_packed mod 8, CI_packed + CI_packed mod 8)
      else (0, CI_packed))"


section \<open>Collaborators: bit packing, kernel vectorisation, zero padding\<close>

text \<open>
  Modelled from the spec: \<open>bitpack\<close> is not part of the sources. It decomposes the values
  along the packed axis into bit planes on a new axis, plane \<open>b\<close> holding bit \<open>b\<close> of each
  value, eight values to a storage unit. The position of a value inside its unit is not fixed
  by the spec; both operands are packed the same way, the first of the eight values in the
  most significant bit.
\<close>

definition pack_unit :: "(int \<Rightarrow> bool) \<Rightarrow> uint8" where
  "pack_unit f = horner_sum of_bool 2 (rev (map (\<lambda>k. f (int k)) [0..<8]))"

text \<open>The activation: \<open>pack_axis=3, bit_axis=3\<close>.\<close>

definition bitpack_data :: "int tensor4 \<Rightarrow> nat \<Rightarrow> uint8 tensor5" where
  "bitpack_data t bits =
     (case shape4 t of (N, H, W, C) \<Rightarrow>
        \<lparr>shape5 = (N, H, W, int bits, C div 8),
         at5 = (\<lambda>n h w b c. pack_unit (\<lambda>k. bit (at4 t n h w (c * 8 + k)) (nat b)))\<rparr>)"

text \<open>An unpacked weight tensor: \<open>pack_axis=2, bit_axis=2\<close>.\<close>

definition bitpack_kernel :: "int tensor4 \<Rightarrow> nat \<Rightarrow> uint8 tensor5" where
  "bitpack_kernel t bits =
     (case shape4 t of (KH, KW, C, CO) \<Rightarrow>
        \<lparr>shape5 = (KH, KW, int bits, C div 8, CO),
         at5 = (\<lambda>dh dw b c co. pack_unit (\<lambda>k. bit (at4 t dh dw (c * 8 + k) co) (nat b)))\<rparr>)"

text \<open>
  Modelled from the spec: \<open>_kernel_vec_spatial_pack_nhwc\<close> is not part of the sources. It
  packs the weights when they come unpacked and regroups the output channels into chunks
  of \<open>VC\<close>; the chunk count \<open>CO // VC\<close> fails for \<open>VC = 0\<close>.
\<close>

definition kernel_vec_spatial_pack_nhwc ::
  "kernel \<Rightarrow> nat \<Rightarrow> int \<Rightarrow> node list \<times> (error + uint8 tensor6)" where
  "kernel_vec_spatial_pack_nhwc kern kernel_bits VC =
     (let (built, kernel_q) =
            (case kern of
               Kernel4 k \<Rightarrow> ([Bitpack], bitpack_kernel k kernel_bits)
             | Kernel5 k \<Rightarrow> ([], k))
      in case shape5 kernel_q of (KH, KW, KB, CI, CO) \<Rightarrow>
           if VC = 0 then (built, Inl ZeroDivisionError)
           else (built @ [KernelVec],
                 Inr \<lparr>shape6 = (CO div VC, KH, KW, KB, VC, CI),
                      at6 = (\<lambda>co dh dw b vc ci. at5 kernel_q dh dw b ci (co * VC + vc))\<rparr>))"

text \<open>
  Modelled from the spec: \<open>pad\<close> is not part of the sources. It extends every axis by the
  given amounts before and after and fills the new positions with zero; an axis that is not
  padded is passed through as it is.
\<close>

definition in_padded :: "int \<Rightarrow> int \<Rightarrow> int \<Rightarrow> int \<Rightarrow> bool" where
  "in_padded extent before after i =
     (before = 0 \<and> after = 0 \<or> before \<le> i \<and> i < extent + before)"

definition pad5 ::
  "'a::zero tensor5 \<Rightarrow> int \<times> int \<times> int \<times> int \<times> int \<Rightarrow> int \<times> int \<times> int \<times> int \<times> int
     \<Rightarrow> 'a tensor5" where
  "pad5 t pad_before pad_after =
     (case shape5 t of (s0, s1, s2, s3, s4) \<Rightarrow>
      case pad_before of (b0, b1, b2, b3, b4) \<Rightarrow>
      case pad_after of (a0, a1, a2, a3, a4) \<Rightarrow>
        \<lparr>shape5 = (s0 + b0 + a0, s1 + b1 + a1, s2 + b2 + a2, s3 + b3 + a3, s4 + b4 + a4),
         at5 = (\<lambda>i0 i1 i2 i3 i4.
                  if in_padded s0 b0 a0 i0 \<and> in_padded s1 b1 a1 i1 \<and> in_padded s2 b2 a2 i2
                     \<and> in_padded s3 b3 a3 i3 \<and> in_padded s4 b4 a4 i4
                  then at5 t (i0 - b0) (i1 - b1) (i2 - b2) (i3 - b3) (i4 - b4)
                  else 0)\<rparr>)"

definition pad6 ::
  "'a::zero tensor6 \<Rightarrow> int \<times> int \<times> int \<times> int \<times> int \<times> int
     \<Rightarrow> int \<times> int \<times> int \<times> int \<times> int \<times> int \<Rightarrow> 'a tensor6" where
  "pad6 t pad_before pad_after =
     (case shape6 t of (s0, s1, s2, s3, s4, s5) \<Rightarrow>
      case pad_before of (b0, b1, b2, b3, b4, b5) \<Rightarrow>
      case pad_after of (a0, a1, a2, a3, a4, a5) \<Rightarrow>
        \<lparr>shape6 = (s0 + b0 + a0, s1 + b1 + a1, s2 + b2 + a2, s3 + b3 + a3, s4 + b4 + a4,
                   s5 + b5 + a5),
         at6 = (\<lambda>i0 i1 i2 i3 i4 i5.
                  if in_padded s0 b0 a0 i0 \<and> in_padded s1 b1 a1 i1 \<and> in_padded s2 b2 a2 i2
                     \<and> in_padded s3 b3 a3 i3 \<and> in_padded s4 b4 a4 i4 \<and> in_padded s5 b5 a5 i5
                  then at6 t (i0 - b0) (i1 - b1) (i2 - b2) (i3 - b3) (i4 - b4) (i5 - b5)
                  else 0)\<rparr>)"


section \<open>The accumulation expressions\<close>

text \<open>
  The bodies of \<open>_bipolar_conv\<close> and \<open>_unipolar_conv\<close> are expressions of the tensor
  expression language over two 8-bit loads and the two reduction variables \<open>kb\<close> and \<open>ib\<close>.
  They are kept as typed expression trees, so that the element type at which each operation is
  applied can be read off.
\<close>

datatype dtype = UInt8 | UInt16 | Int16 | Int32

fun bits :: "dtype \<Rightarrow> nat" where
  "bits UInt8 = 8"
| "bits UInt16 = 16"
| "bits Int16 = 16"
| "bits Int32 = 32"

fun is_signed :: "dtype \<Rightarrow> bool" where
  "is_signed UInt8 = False"
| "is_signed UInt16 = False"
| "is_signed Int16 = True"
| "is_signed Int32 = True"

datatype expr =
  KernelElem
  | DataElem
  | VarKB
  | VarIB
  | Cast dtype expr
  | BitAnd expr expr
  | BitNot expr
  | Popcount expr
  | ShiftLeft expr expr
  | Sub expr expr
  | Add expr expr

fun dtype_of :: "expr \<Rightarrow> dtype" where
  "dtype_of KernelElem = UInt8"
| "dtype_of DataElem = UInt8"
| "dtype_of VarKB = Int32"
| "dtype_of VarIB = Int32"
| "dtype_of (Cast t e) = t"
| "dtype_of (BitAnd x y) = dtype_of x"
| "dtype_of (BitNot x) = dtype_of x"
| "dtype_of (Popcount x) = dtype_of x"
| "dtype_of (ShiftLeft x y) = dtype_of x"
| "dtype_of (Sub x y) = dtype_of x"
| "dtype_of (Add x y) = dtype_of x"

text \<open>
  Modelled from the spec: the operators of the expression language are not part of the
  sources. \<open>astype\<close> casts unless the expression has the type already. A binary operator
  first brings its operands to one type, casting the narrower operand to the type of the wider
  one (of two types of one width, to the unsigned one), and then builds the node; this is how
  an operand that the source hands over as an 8-bit unit is widened before the operation.
\<close>

definition astype :: "dtype \<Rightarrow> expr \<Rightarrow> expr" where
  "astype t e = (if dtype_of e = t then e else Cast t e)"

definition match_types :: "expr \<Rightarrow> expr \<Rightarrow> expr \<times> expr" where
  "match_types x y =
     (let tx = dtype_of x; ty = dtype_of y
      in if tx = ty then (x, y)
         else if bits tx < bits ty then (Cast ty x, y)
         else if bits ty < bits tx then (x, Cast tx y)
         else if is_signed tx then (Cast ty x, y)
         else (x, Cast tx y))"

definition op_and :: "expr \<Rightarrow> expr \<Rightarrow> expr" where
  "op_and x y = (case match_types x y of (x', y') \<Rightarrow> BitAnd x' y')"

definition op_shl :: "expr \<Rightarrow> expr \<Rightarrow> expr" where
  "op_shl x y = (case match_types x y of (x', y') \<Rightarrow> ShiftLeft x' y')"

definition op_sub :: "expr \<Rightarrow> expr \<Rightarrow> expr" where
  "op_sub x y = (case match_types x y of (x', y') \<Rightarrow> Sub x' y')"

definition op_add :: "expr \<Rightarrow> expr \<Rightarrow> expr" where
  "op_add x y = (case match_types x y of (x', y') \<Rightarrow> Add x' y')"

text \<open>Lines 152 to 156: the term of \<open>_bipolar_conv\<close>.\<close>

definition bipolar_conv_expr :: expr where
  "bipolar_conv_expr =
     op_shl
       (Popcount (op_and (astype UInt16 KernelElem) (astype UInt16 DataElem)))
       (astype UInt16 (op_add VarKB VarIB))"

text \<open>
  Lines 164 to 174: the term of \<open>_unipolar_conv\<close>. In the second population count the
  activation load carries no \<open>astype\<close>; the cast to \<open>int16\<close> is on the count.
\<close>

definition unipolar_conv_expr :: expr where
  "unipolar_conv_expr =
     op_shl
       (op_sub
          (Popcount (op_and (astype Int16 KernelElem) (astype Int16 DataElem)))
          (astype Int16 (Popcount (op_and (BitNot (astype Int16 KernelElem)) DataElem))))
       (astype Int16 (op_add VarKB VarIB))"

text \<open>
  The value of an expression, as the integer its element type holds. \<open>wrap\<close> brings an
  integer into the range of a type by two's complement wrap-around.
\<close>

definition wrap :: "dtype \<Rightarrow> int \<Rightarrow> int" where
  "wrap t v = (if is_signed t then signed_take_bit (bits t - 1) v else take_bit (bits t) v)"

fun eval :: "uint8 \<Rightarrow> uint8 \<Rightarrow> int \<Rightarrow> int \<Rightarrow> expr \<Rightarrow> int" where
  "eval w a kb ib KernelElem = uint w"
| "eval w a kb ib DataElem = uint a"
| "eval w a kb ib VarKB = kb"
| "eval w a kb ib VarIB = ib"
| "eval w a kb ib (Cast t e) = wrap t (eval w a kb ib e)"
| "eval w a kb ib (BitAnd x y) = wrap (dtype_of x) (eval w a kb ib x AND eval w a kb ib y)"
| "eval w a kb ib (BitNot x) = wrap (dtype_of x) (NOT (eval w a kb ib x))"
| "eval w a kb ib (Popcount x) =
     int (length (filter (bit (eval w a kb ib x)) [0..<bits (dtype_of x)]))"
| "eval w a kb ib (ShiftLeft x y) =
     wrap (dtype_of x) (push_bit (nat (eval w a kb ib y)) (eval w a kb ib x))"
| "eval w a kb ib (Sub x y) = wrap (dtype_of x) (eval w a kb ib x - eval w a kb ib y)"
| "eval w a kb ib (Add x y) = wrap (dtype_of x) (eval w a kb ib x + eval w a kb ib y)"

text \<open>The 16-bit value of one term of the accumulation.\<close>

definition bipolar_term :: "uint8 \<Rightarrow> uint8 \<Rightarrow> int \<Rightarrow> int \<Rightarrow> word16" where
  "bipolar_term w a kb ib = word_of_int (eval w a kb ib bipolar_conv_expr)"

definition unipolar_term :: "uint8 \<Rightarrow> uint8 \<Rightarrow> int \<Rightarrow> int \<Rightarrow> word16" where
  "unipolar_term w a kb ib = word_of_int (eval w a kb ib unipolar_conv_expr)"

section \<open>Reductions\<close>

text \<open>A reduction loop over \<open>range(0, n)\<close>, accumulating in ascending order.\<close>

fun reduce_sum :: "nat \<Rightarrow> (int \<Rightarrow> 'a::comm_monoid_add) \<Rightarrow> 'a" where
  "reduce_sum 0 f = 0"
| "reduce_sum (Suc n) f = reduce_sum n f + f (int n)"

type_synonym extents5 = "int \<times> int \<times> int \<times> int \<times> int"

text \<open>
  \<open>te.sum(..., axis=[dh, dw, kb, ib, ci])\<close> without a schedule: the reduction loops nest in the
  order of the axis list.
\<close>

definition te_sum ::
  "extents5 \<Rightarrow> (int \<Rightarrow> int \<Rightarrow> int \<Rightarrow> int \<Rightarrow> int \<Rightarrow> 'a) \<Rightarrow> 'a::comm_monoid_add" where
  "te_sum ext f =
     (case ext of (KH, KW, KB, IB, CI) \<Rightarrow>
        reduce_sum (nat KH) (\<lambda>dh. reduce_sum (nat KW) (\<lambda>dw. reduce_sum (nat KB) (\<lambda>kb.
          reduce_sum (nat IB) (\<lambda>ib. reduce_sum (nat CI) (\<lambda>ci. f dh dw kb ib ci))))))"


section \<open>The compute entry point\<close>

text \<open>Lines 138 to 142: \<open>data_vec\<close>.\<close>

definition data_vec_compute ::
  "int \<times> int \<times> int \<times> int \<times> int \<times> int \<times> int \<Rightarrow> uint8 tensor5 \<Rightarrow> int \<Rightarrow> int \<Rightarrow> int \<Rightarrow> int
     \<Rightarrow> uint8 tensor7" where
  "data_vec_compute dvshape data_pad VH VW HSTR WSTR =
     \<lparr>shape7 = dvshape,
      at7 = (\<lambda>n h w vh vw b ci. at5 data_pad n (h * VH * HSTR + vh) (w * VW * WSTR + vw) b ci)\<rparr>"

text \<open>
  Lines 149 to 177. The reduction is a parameter \<open>red\<close>: the graph fixes the terms and the
  extents of the five reduction axes, the loop nest that adds them up is fixed by the schedule.
\<close>

definition bipolar_conv ::
  "(extents5 \<Rightarrow> (int \<Rightarrow> int \<Rightarrow> int \<Rightarrow> int \<Rightarrow> int \<Rightarrow> word16) \<Rightarrow> word16) \<Rightarrow> extents5
     \<Rightarrow> uint8 tensor6 \<Rightarrow> uint8 tensor7 \<Rightarrow> int \<Rightarrow> int
     \<Rightarrow> int \<Rightarrow> int \<Rightarrow> int \<Rightarrow> int \<Rightarrow> int \<Rightarrow> int \<Rightarrow> int \<Rightarrow> word16" where
  "bipolar_conv red ext kernel_vec data_vec HSTR WSTR n h w co vh vw vc =
     red ext (\<lambda>dh dw kb ib ci.
       bipolar_term (at6 kernel_vec co dh dw kb vc ci)
         (at7 data_vec n h w (vh * HSTR + dh) (vw * WSTR + dw) ib ci) kb ib)"

definition unipolar_conv ::
  "(extents5 \<Rightarrow> (int \<Rightarrow> int \<Rightarrow> int \<Rightarrow> int \<Rightarrow> int \<Rightarrow> word16) \<Rightarrow> word16) \<Rightarrow> extents5
     \<Rightarrow> uint8 tensor6 \<Rightarrow> uint8 tensor7 \<Rightarrow> int \<Rightarrow> int
     \<Rightarrow> int \<Rightarrow> int \<Rightarrow> int \<Rightarrow> int \<Rightarrow> int \<Rightarrow> int \<Rightarrow> int \<Rightarrow> word16" where
  "unipolar_conv red ext kernel_vec data_vec HSTR WSTR n h w co vh vw vc =
     red ext (\<lambda>dh dw kb ib ci.
       unipolar_term (at6 kernel_vec co dh dw kb vc ci)
         (at7 data_vec n h w (vh * HSTR + dh) (vw * WSTR + dw) ib ci) kb ib)"

text \<open>
  Lines 184 to 191: \<open>conv\<close>. The cast to \<open>int16\<close> keeps the sixteen bits; an element of the
  output is read as a signed number with \<open>sint\<close>.
\<close>

definition conv_compute ::
  "int \<times> int \<times> int \<times> int \<Rightarrow> word16 tensor7 \<Rightarrow> int \<Rightarrow> int \<Rightarrow> int \<Rightarrow> word16 tensor4" where
  "conv_compute oshape conv_vec VH VW VC =
     \<lparr>shape4 = oshape,
      at4 = (\<lambda>n h w co.
               at7 conv_vec n (h div VH) (w div VW) (co div VC) (h mod VH) (w mod VW) (co mod VC))\<rparr>"

text \<open>
  The entry point. Its result is the list of the graph nodes it has constructed, in order, and
  either the failure that ended the call or the output tensor \<open>conv\<close>.
\<close>

definition bitserial_conv2d_nhwc_no_intrinsics ::
  "(extents5 \<Rightarrow> (int \<Rightarrow> int \<Rightarrow> int \<Rightarrow> int \<Rightarrow> int \<Rightarrow> word16) \<Rightarrow> word16) \<Rightarrow> config
     \<Rightarrow> int tensor4 \<Rightarrow> kernel \<Rightarrow> stride \<Rightarrow> padding \<Rightarrow> nat \<Rightarrow> nat \<Rightarrow> string \<Rightarrow> string \<Rightarrow> bool
     \<Rightarrow> node list \<times> (error + word16 tensor4)" where
  "bitserial_conv2d_nhwc_no_intrinsics red cfg data kern stride padding activation_bits
       weight_bits pack_dtype out_dtype unipolar =
     (if fst (shape4 data) \<noteq> 1 then ([], Inl BatchSizeAssertion)
      else if pack_dtype \<noteq> ''uint8'' then ([], Inl PackDtypeAssertion)
      else if out_dtype \<noteq> ''int16'' then ([], Inl OutDtypeAssertion)
      else
        case shape4 data of (N, H, W, CI) \<Rightarrow>
        case kernel_extents kern CI of (KH, KW, CI_packed, CO) \<Rightarrow>
        case pad_amounts padding of (TPAD, LPAD, DPAD, RPAD) \<Rightarrow>
        case strides stride of (HSTR, WSTR) \<Rightarrow>
        let HCAT = KH - 1; WCAT = KW - 1;
            PAD_H = H + (TPAD + DPAD);
            PAD_W = W + (LPAD + RPAD)
        in
        if HSTR = 0 \<or> WSTR = 0 then ([], Inl ZeroDivisionError)
        else
        let OH = (PAD_H - KH) div HSTR + 1;
            OW = (PAD_W - KW) div WSTR + 1;
            oshape = (1, OH, OW, CO);
            CI_PAD = fst (channel_pad CI_packed);
            VC = snd (tile_co cfg);
            VH = snd (tile_oh cfg);
            VW = snd (tile_ow cfg);
            data_q = bitpack_data data activation_bits
        in
        case kernel_vec_spatial_pack_nhwc kern weight_bits VC of
          (built_k, Inl e) \<Rightarrow> (Bitpack # built_k, Inl e)
        | (built_k, Inr kernel_vec0) \<Rightarrow>
        let pad_kernel = (snd (snd (snd (snd (snd (shape6 kernel_vec0))))) mod 8 \<noteq> 0 \<and> CI_PAD \<noteq> 0);
            kernel_vec =
              (if pad_kernel then pad6 kernel_vec0 (0, 0, 0, 0, 0, 0) (0, 0, 0, 0, 0, CI_PAD)
               else kernel_vec0);
            built_kp =
              Bitpack # built_k @
                (if pad_kernel then [KernelPad [0, 0, 0, 0, 0, 0] [0, 0, 0, 0, 0, CI_PAD]] else [])
        in
        case shape5 data_q of (N, H, W, IB, CI) \<Rightarrow>
        case shape6 kernel_vec of (OCO, KH, KW, KB, VC, CI) \<Rightarrow>
        if VH * HSTR = 0 \<or> VW * WSTR = 0 then (built_kp, Inl ZeroDivisionError)
        else
        let dvshape =
              (N, PAD_H div (VH * HSTR), PAD_W div (VW * WSTR), VH * HSTR + HCAT,
               VW * WSTR + WCAT, IB, CI)
        in
        if VH = 0 \<or> VW = 0 \<or> VC = 0 then (built_kp, Inl ZeroDivisionError)
        else
        let ovshape = (1, OH div VH, OW div VW, CO div VC, VH, VW, VC);
            (built_p, data_pad) =
              (if TPAD \<noteq> 0 \<and> RPAD \<noteq> 0
               then ([DataPad [0, TPAD, LPAD, 0, 0] [0, DPAD, RPAD, 0, CI_PAD]],
                     pad5 data_q (0, TPAD, LPAD, 0, 0) (0, DPAD, RPAD, 0, CI_PAD))
               else if CI_PAD \<noteq> 0
               then ([DataPad [0, 0, 0, 0, 0] [0, 0, 0, 0, CI_PAD]],
                     pad5 data_q (0, 0, 0, 0, 0) (0, 0, 0, 0, CI_PAD))
               else ([], data_q));
            data_vec = data_vec_compute dvshape data_pad VH VW HSTR WSTR;
            ext = (KH, KW, KB, IB, CI);
            conv_vec =
              (if unipolar
               then \<lparr>shape7 = ovshape,
                     at7 = unipolar_conv red ext kernel_vec data_vec HSTR WSTR\<rparr>
               else \<lparr>shape7 = ovshape,
                     at7 = bipolar_conv red ext kernel_vec data_vec HSTR WSTR\<rparr>);
            conv = conv_compute oshape conv_vec VH VW VC
        in (built_kp @ built_p @ [DataVec, ConvVec unipolar, Conv], Inr conv))"

section \<open>The schedule of the accumulation\<close>

text \<open>
  Lines 225 to 231 of \<open>_schedule_spatial_conv2d_nhwc_no_intrinsics\<close>: the input-channel
  reduction axis is split by the factor of \<open>tile_ci\<close>, and the thirteen loops of the
  accumulation are put in the order that \<open>reorder_0\<close> selects.
\<close>

definition conv_out_loops :: "config \<Rightarrow> axis list" where
  "conv_out_loops cfg =
     apply_reorder (reorder_0 cfg)
       [AxN, AxOH, AxOW, AxCO, AxVH, AxVW, AxKH, AxKW, AxCI_O, AxKB, AxIB, AxVC, AxCI_I]"

fun is_reduce_axis :: "axis \<Rightarrow> bool" where
  "is_reduce_axis AxKH = True"
| "is_reduce_axis AxKW = True"
| "is_reduce_axis AxCI_O = True"
| "is_reduce_axis AxKB = True"
| "is_reduce_axis AxIB = True"
| "is_reduce_axis AxCI_I = True"
| "is_reduce_axis _ = False"

text \<open>
  Modelled from the spec: the loop nest that the scheduling substrate emits is not part of the
  sources. For one element of the accumulation the data-parallel loops are fixed, and the
  reduction loops run nested in the order of the loop list, each over its extent; the body
  adds one term.
\<close>

fun run_loops ::
  "axis list \<Rightarrow> (axis \<Rightarrow> int) \<Rightarrow> (axis \<Rightarrow> int) \<Rightarrow> ((axis \<Rightarrow> int) \<Rightarrow> 'a) \<Rightarrow> 'a::comm_monoid_add" where
  "run_loops [] extent env body = body env"
| "run_loops (x # xs) extent env body =
     (if is_reduce_axis x
      then reduce_sum (nat (extent x)) (\<lambda>i. run_loops xs extent (env(x := i)) body)
      else run_loops xs extent env body)"

text \<open>
  Modelled from the spec: a split by a factor gives an outer loop over the chunks and an inner
  loop of the width of the factor, \<open>outer * factor + inner\<close> recovering the original index;
  iterations past the extent of the original axis are skipped.
\<close>

definition scheduled_sum ::
  "config \<Rightarrow> extents5 \<Rightarrow> (int \<Rightarrow> int \<Rightarrow> int \<Rightarrow> int \<Rightarrow> int \<Rightarrow> 'a) \<Rightarrow> 'a::comm_monoid_add" where
  "scheduled_sum cfg ext f =
     (case ext of (KH, KW, KB, IB, CI) \<Rightarrow>
        let factor = snd (tile_ci cfg);
            extent = (\<lambda>x. case x of
                        AxKH \<Rightarrow> KH | AxKW \<Rightarrow> KW | AxKB \<Rightarrow> KB | AxIB \<Rightarrow> IB
                      | AxCI_O \<Rightarrow> (CI + factor - 1) div factor
                      | AxCI_I \<Rightarrow> factor
                      | _ \<Rightarrow> 1)
        in run_loops (conv_out_loops cfg) extent (\<lambda>x. 0)
             (\<lambda>env. let ci = env AxCI_O * factor + env AxCI_I
                    in if ci < CI then f (env AxKH) (env AxKW) (env AxKB) (env AxIB) ci else 0))"

text \<open>
  The configurations of the space that the entry point declares for extents \<open>OH\<close>, \<open>OW\<close>,
  \<open>CO\<close> and the padded packed channel count \<open>CI_packed\<close>.
\<close>

definition valid_config :: "config \<Rightarrow> int \<Rightarrow> int \<Rightarrow> int \<Rightarrow> int \<Rightarrow> bool" where
  "valid_config cfg OH OW CO CI_packed \<longleftrightarrow>
     tile_co cfg \<in> set (tile_co_space CO) \<and>
     tile_oh cfg \<in> set (tile_oh_space OH) \<and>
     tile_ow cfg \<in> set (tile_ow_space OW) \<and>
     tile_ci cfg \<in> set (tile_ci_space CI_packed) \<and>
     reorder_0 cfg \<in> set reorder_0_space"


text \<open>
  The generated kernel: the graph of the entry point, its accumulation run in the loop nest
  that the schedule builds from the same configuration.
\<close>

definition generated_kernel ::
  "config \<Rightarrow> int tensor4 \<Rightarrow> kernel \<Rightarrow> stride \<Rightarrow> padding \<Rightarrow> nat \<Rightarrow> nat \<Rightarrow> string \<Rightarrow> string \<Rightarrow> bool
     \<Rightarrow> node list \<times> (error + word16 tensor4)" where
  "generated_kernel cfg data kern stride padding activation_bits weight_bits pack_dtype
       out_dtype unipolar =
     bitserial_conv2d_nhwc_no_intrinsics (scheduled_sum cfg) cfg data kern stride padding
       activation_bits weight_bits pack_dtype out_dtype unipolar"

text \<open>
  Lines 225 to 228: the accumulation has seven data-parallel axes and five reduction axes,
  twelve loop variables in all; the input-channel reduction \<open>ci\<close> enters the loop list as
  its two split parts \<open>ci_o\<close> and \<open>ci_i\<close>.
\<close>

datatype loop_var =
  LoopN | LoopOH | LoopOW | LoopCO | LoopVH | LoopVW | LoopVC
  | LoopKH | LoopKW | LoopKB | LoopIB | LoopCI

definition conv_out_variables :: "loop_var list" where
  "conv_out_variables =
     [LoopN, LoopOH, LoopOW, LoopCO, LoopVH, LoopVW, LoopVC]
     @ [LoopKH, LoopKW, LoopKB, LoopIB, LoopCI]"

fun loop_variable :: "axis \<Rightarrow> loop_var" where
  "loop_variable AxN = LoopN"
| "loop_variable AxOH = LoopOH"
| "loop_variable AxOW = LoopOW"
| "loop_variable AxCO = LoopCO"
| "loop_variable AxVH = LoopVH"
| "loop_variable AxVW = LoopVW"
| "loop_variable AxVC = LoopVC"
| "loop_variable AxKH = LoopKH"
| "loop_variable AxKW = LoopKW"
| "loop_variable AxKB = LoopKB"
| "loop_variable AxIB = LoopIB"
| "loop_variable AxCI_O = LoopCI"
| "loop_variable AxCI_I = LoopCI"

section \<open>Reference semantics\<close>

text \<open>
  The population count of a word, and the check that every bitwise operation of an expression
  (AND, complement, population count, shift) is applied to 16-bit operands.
\<close>

definition popcount :: "'a::len word \<Rightarrow> nat" where
  "popcount x = length (filter (bit x) [0..<LENGTH('a)])"


text \<open>
  The standard integer convolution of the unpacked values, in the words of the spec: the
  activation is extended by zeros on every padded side, and an output element is the dot
  product of the weights with the receptive field, over kernel height, kernel width and input
  channel.
\<close>

definition padded_input :: "int tensor4 \<Rightarrow> int \<Rightarrow> int \<Rightarrow> int \<Rightarrow> int \<Rightarrow> int \<Rightarrow> int" where
  "padded_input data TPAD LPAD r s c =
     (case shape4 data of (N, H, W, CI) \<Rightarrow>
        if TPAD \<le> r \<and> r < H + TPAD \<and> LPAD \<le> s \<and> s < W + LPAD
        then at4 data 0 (r - TPAD) (s - LPAD) c else 0)"

definition reference_conv2d ::
  "int tensor4 \<Rightarrow> int tensor4 \<Rightarrow> int \<Rightarrow> int \<Rightarrow> int \<Rightarrow> int \<Rightarrow> int \<Rightarrow> int \<Rightarrow> int \<Rightarrow> int" where
  "reference_conv2d data k HSTR WSTR TPAD LPAD h w co =
     (case shape4 k of (KH, KW, CI, CO) \<Rightarrow>
        reduce_sum (nat KH) (\<lambda>dh. reduce_sum (nat KW) (\<lambda>dw. reduce_sum (nat CI) (\<lambda>c.
          padded_input data TPAD LPAD (h * HSTR + dh) (w * WSTR + dw) c * at4 k dh dw c co))))"

text \<open>
  The unipolar reading of a weight: every bit of the weight stands for \<open>+1\<close> when it is set and
  for \<open>-1\<close> when it is clear, at the significance of the bit. With one weight bit the values
  1 and 0 become \<open>+1\<close> and \<open>-1\<close>.
\<close>

definition unipolar_weight :: "nat \<Rightarrow> int \<Rightarrow> int" where
  "unipolar_weight weight_bits v =
     reduce_sum weight_bits (\<lambda>b. if bit v (nat b) then 2 ^ nat b else - (2 ^ nat b))"

definition reference_conv2d_unipolar ::
  "nat \<Rightarrow> int tensor4 \<Rightarrow> int tensor4 \<Rightarrow> int \<Rightarrow> int \<Rightarrow> int \<Rightarrow> int \<Rightarrow> int \<Rightarrow> int \<Rightarrow> int \<Rightarrow> int" where
  "reference_conv2d_unipolar weight_bits data k HSTR WSTR TPAD LPAD h w co =
     (case shape4 k of (KH, KW, CI, CO) \<Rightarrow>
        reduce_sum (nat KH) (\<lambda>dh. reduce_sum (nat KW) (\<lambda>dw. reduce_sum (nat CI) (\<lambda>c.
          padded_input data TPAD LPAD (h * HSTR + dh) (w * WSTR + dw) c
            * unipolar_weight weight_bits (at4 k dh dw c co)))))"

text \<open>The values of a 4-D tensor inside its shape lie in \<open>[0, 2^bits)\<close>.\<close>

definition values_below :: "int tensor4 \<Rightarrow> nat \<Rightarrow> bool" where
  "values_below t n \<longleftrightarrow>
     (case shape4 t of (s0, s1, s2, s3) \<Rightarrow>
        \<forall>i0 i1 i2 i3. 0 \<le> i0 \<and> i0 < s0 \<and> 0 \<le> i1 \<and> i1 < s1 \<and> 0 \<le> i2 \<and> i2 < s2 \<and> 0 \<le> i3 \<and> i3 < s3
          \<longrightarrow> 0 \<le> at4 t i0 i1 i2 i3 \<and> at4 t i0 i1 i2 i3 < 2 ^ n)"

text \<open>
  An element of the output read as the signed integer that its sixteen bits hold; \<open>None\<close> when
  the call failed.
\<close>

definition output_value ::
  "node list \<times> (error + word16 tensor4) \<Rightarrow> int \<Rightarrow> int \<Rightarrow> int \<Rightarrow> int option" where
  "output_value r h w co =
     (case snd r of Inl e \<Rightarrow> None | Inr conv \<Rightarrow> Some (sint (at4 conv 0 h w co)))"

text \<open>
  An instance with saturated inputs: 8-bit activations that are all 255, over 256 input
  channels, 1-bit weights that are all 1 in a 1 x 1 kernel with 8 output channels, and a
  configuration of the space of this instance.
\<close>

definition saturated_data :: "int tensor4" where
  "saturated_data = \<lparr>shape4 = (1, 2, 2, 256), at4 = (\<lambda>n h w c. 255)\<rparr>"

definition unit_weights :: "int tensor4" where
  "unit_weights = \<lparr>shape4 = (1, 1, 256, 8), at4 = (\<lambda>dh dw c co. 1)\<rparr>"

definition instance_config :: config where
  "instance_config =
     \<lparr>tile_co = (1, 8), tile_oh = (1, 2), tile_ow = (1, 2), tile_ci = (4, 8),
      reorder_0 = [0, 1, 2, 3, 4, 5, 6, 7, 8, 9, 10, 11, 12]\<rparr>"

section \<open>Derived forms used in the proofs\<close>

text \<open>
  The packed weights that \<open>_kernel_vec_spatial_pack_nhwc\<close> regroups (\<open>kernel_q\<close>), one unit
  of the regrouped and channel-padded weights read back at its output channel, and the padded
  packed activation \<open>data_pad\<close> of lines 131 to 136.
\<close>

definition packed_kernel :: "kernel \<Rightarrow> nat \<Rightarrow> uint8 tensor5" where
  "packed_kernel kern wb = (case kern of Kernel4 k \<Rightarrow> bitpack_kernel k wb | Kernel5 k \<Rightarrow> k)"

definition kernel_unit ::
  "uint8 tensor5 \<Rightarrow> int \<Rightarrow> int \<Rightarrow> int \<Rightarrow> int \<Rightarrow> int \<Rightarrow> int \<Rightarrow> int \<Rightarrow> uint8" where
  "kernel_unit kq CIk CIp dh dw kb ci co =
     (if CIk mod 8 \<noteq> 0 \<and> CIp mod 8 \<noteq> 0 \<and> \<not> (0 \<le> ci \<and> ci < CIk) then 0
      else at5 kq dh dw kb ci co)"

definition padded_data ::
  "int tensor4 \<Rightarrow> nat \<Rightarrow> int \<Rightarrow> int \<Rightarrow> int \<Rightarrow> int \<Rightarrow> int \<Rightarrow> uint8 tensor5" where
  "padded_data data ab CI_PAD T L D R =
     (if T \<noteq> 0 \<and> R \<noteq> 0
      then pad5 (bitpack_data data ab) (0, T, L, 0, 0) (0, D, R, 0, CI_PAD)
      else if CI_PAD \<noteq> 0
      then pad5 (bitpack_data data ab) (0, 0, 0, 0, 0) (0, 0, 0, 0, CI_PAD)
      else bitpack_data data ab)"

text \<open>
  The accumulation as the spec words it: the sum, over kernel height, kernel width, weight-bit
  index, activation-bit index and packed input channel, of the population count of
  \<open>weights & activations\<close> (less, in the unipolar form, that of \<open>~weights & activations\<close>),
  shifted left by the sum of the two bit indices; in unbounded integers.
\<close>

definition bipolar_accumulation ::
  "int tensor4 \<Rightarrow> int tensor4 \<Rightarrow> nat \<Rightarrow> nat \<Rightarrow> int \<Rightarrow> int \<Rightarrow> int \<times> int \<times> int \<times> int
     \<Rightarrow> int \<Rightarrow> int \<Rightarrow> int \<Rightarrow> int" where
  "bipolar_accumulation data k activation_bits weight_bits HSTR WSTR pads h w co =
     (case shape4 k of (KH, KW, CI, CO) \<Rightarrow>
      case pads of (TPAD, LPAD, DPAD, RPAD) \<Rightarrow>
        te_sum (KH, KW, int weight_bits, int activation_bits, CI div 8 + CI div 8 mod 8)
          (\<lambda>dh dw kb ib ci.
             int (popcount
               (kernel_unit (bitpack_kernel k weight_bits) (CI div 8) (CI div 8) dh dw kb ci co
                AND at5 (padded_data data activation_bits (CI div 8 mod 8) TPAD LPAD DPAD RPAD)
                      0 (h * HSTR + dh) (w * WSTR + dw) ib ci))
             * 2 ^ nat (kb + ib)))"

definition unipolar_accumulation ::
  "int tensor4 \<Rightarrow> int tensor4 \<Rightarrow> nat \<Rightarrow> nat \<Rightarrow> int \<Rightarrow> int \<Rightarrow> int \<times> int \<times> int \<times> int
     \<Rightarrow> int \<Rightarrow> int \<Rightarrow> int \<Rightarrow> int" where
  "unipolar_accumulation data k activation_bits weight_bits HSTR WSTR pads h w co =
     (case shape4 k of (KH, KW, CI, CO) \<Rightarrow>
      case pads of (TPAD, LPAD, DPAD, RPAD) \<Rightarrow>
        te_sum (KH, KW, int weight_bits, int activation_bits, CI div 8 + CI div 8 mod 8)
          (\<lambda>dh dw kb ib ci.
             (int (popcount
               (kernel_unit (bitpack_kernel k weight_bits) (CI div 8) (CI div 8) dh dw kb ci co
                AND at5 (padded_data data activation_bits (CI div 8 mod 8) TPAD LPAD DPAD RPAD)
                      0 (h * HSTR + dh) (w * WSTR + dw) ib ci))
              - int (popcount
               (NOT (kernel_unit (bitpack_kernel k weight_bits) (CI div 8) (CI div 8) dh dw kb ci co)
                AND at5 (padded_data data activation_bits (CI div 8 mod 8) TPAD LPAD DPAD RPAD)
                      0 (h * HSTR + dh) (w * WSTR + dw) ib ci)))
             * 2 ^ nat (kb + ib)))"

section \<open>Properties of the entry point\<close>

lemma kernel_vec_error:
  "kernel_vec_spatial_pack_nhwc kern wb VC = (b, Inl e) \<Longrightarrow> e = ZeroDivisionError"
  by (auto simp: kernel_vec_spatial_pack_nhwc_def Let_def split: kernel.splits prod.splits if_splits)

lemma entry_error:
  assumes "fst (shape4 data) = 1" "pack_dtype = ''uint8''" "out_dtype = ''int16''"
    and "snd (bitserial_conv2d_nhwc_no_intrinsics red cfg data kern stride padding ab wb
           pack_dtype out_dtype unipolar) = Inl e"
  shows "e = ZeroDivisionError"
  using assms
  by (auto simp: bitserial_conv2d_nhwc_no_intrinsics_def Let_def dest: kernel_vec_error
      split: prod.splits if_splits sum.splits)

text \<open>
  C10. A call whose batch size is not 1, whose packing type is not \<open>uint8\<close> or whose output
  type is not \<open>int16\<close> ends in one of the three assertion failures with no graph node
  constructed; a call that meets the three preconditions does not end in any of them.
\<close>

theorem contract_violation_fails_first:
  "(fst (shape4 data) \<noteq> 1 \<or> pack_dtype \<noteq> ''uint8'' \<or> out_dtype \<noteq> ''int16'' \<longrightarrow>
      (\<exists>e. bitserial_conv2d_nhwc_no_intrinsics red cfg data kern stride padding ab wb
              pack_dtype out_dtype unipolar = ([], Inl e)
            \<and> e \<in> {BatchSizeAssertion, PackDtypeAssertion, OutDtypeAssertion}))
   \<and> (fst (shape4 data) = 1 \<and> pack_dtype = ''uint8'' \<and> out_dtype = ''int16'' \<longrightarrow>
        snd (bitserial_conv2d_nhwc_no_intrinsics red cfg data kern stride padding ab wb
               pack_dtype out_dtype unipolar)
          \<notin> {Inl BatchSizeAssertion, Inl PackDtypeAssertion, Inl OutDtypeAssertion})"
proof (intro conjI impI)
  assume "fst (shape4 data) \<noteq> 1 \<or> pack_dtype \<noteq> ''uint8'' \<or> out_dtype \<noteq> ''int16''"
  then show "\<exists>e. bitserial_conv2d_nhwc_no_intrinsics red cfg data kern stride padding ab wb
                   pack_dtype out_dtype unipolar = ([], Inl e)
                 \<and> e \<in> {BatchSizeAssertion, PackDtypeAssertion, OutDtypeAssertion}"
    by (auto simp: bitserial_conv2d_nhwc_no_intrinsics_def)
next
  assume a: "fst (shape4 data) = 1 \<and> pack_dtype = ''uint8'' \<and> out_dtype = ''int16''"
  show "snd (bitserial_conv2d_nhwc_no_intrinsics red cfg data kern stride padding ab wb
               pack_dtype out_dtype unipolar)
          \<notin> {Inl BatchSizeAssertion, Inl PackDtypeAssertion, Inl OutDtypeAssertion}"
    using entry_error[of data pack_dtype out_dtype red cfg kern stride padding ab wb unipolar] a
    by auto
qed

theorem contract_violation_fails_first_witness:
  "(fst (shape4 \<lparr>shape4 = (2, 8, 8, 16), at4 = (\<lambda>n h w c. (1::int))\<rparr>) \<noteq> 1
    \<and> (\<exists>e. bitserial_conv2d_nhwc_no_intrinsics te_sum
              \<lparr>tile_co = (1, 8), tile_oh = (3, 2), tile_ow = (3, 2), tile_ci = (1, 8),
               reorder_0 = [0, 1, 2, 3, 4, 5, 6, 7, 8, 9, 10, 11, 12]\<rparr>
              \<lparr>shape4 = (2, 8, 8, 16), at4 = (\<lambda>n h w c. 1)\<rparr>
              (Kernel4 \<lparr>shape4 = (3, 3, 16, 8), at4 = (\<lambda>dh dw c co. 1)\<rparr>)
              (StrideInt 1) (PadInt 0) 1 1 ''uint8'' ''int16'' False = ([], Inl e)
            \<and> e \<in> {BatchSizeAssertion, PackDtypeAssertion, OutDtypeAssertion}))
   \<and> (fst (shape4 \<lparr>shape4 = (1, 8, 8, 16), at4 = (\<lambda>n h w c. (1::int))\<rparr>) = 1
      \<and> snd (bitserial_conv2d_nhwc_no_intrinsics te_sum
              \<lparr>tile_co = (1, 8), tile_oh = (3, 2), tile_ow = (3, 2), tile_ci = (1, 8),
               reorder_0 = [0, 1, 2, 3, 4, 5, 6, 7, 8, 9, 10, 11, 12]\<rparr>
              \<lparr>shape4 = (1, 8, 8, 16), at4 = (\<lambda>n h w c. 1)\<rparr>
              (Kernel4 \<lparr>shape4 = (3, 3, 16, 8), at4 = (\<lambda>dh dw c co. 1)\<rparr>)
              (StrideInt 1) (PadInt 0) 1 1 ''uint8'' ''int16'' False)
          \<notin> {Inl BatchSizeAssertion, Inl PackDtypeAssertion, Inl OutDtypeAssertion})"
proof -
  have a: "fst (shape4 \<lparr>shape4 = (2, 8, 8, 16), at4 = (\<lambda>n h w c. (1::int))\<rparr>) \<noteq> 1" by simp
  have b: "fst (shape4 \<lparr>shape4 = (1, 8, 8, 16), at4 = (\<lambda>n h w c. (1::int))\<rparr>) = 1
           \<and> ''uint8'' = ''uint8'' \<and> ''int16'' = ''int16''" by simp
  show ?thesis
    using a b
      contract_violation_fails_first[of "\<lparr>shape4 = (2, 8, 8, 16), at4 = (\<lambda>n h w c. 1)\<rparr>" "''uint8''" "''int16''"]
      contract_violation_fails_first[of "\<lparr>shape4 = (1, 8, 8, 16), at4 = (\<lambda>n h w c. 1)\<rparr>" "''uint8''" "''int16''"]
    by blast
qed

lemma kernel_vec_Inr:
  "VC \<noteq> 0 \<Longrightarrow> kernel_vec_spatial_pack_nhwc kern wb VC =
     (case kern of Kernel4 k \<Rightarrow> [Bitpack, KernelVec] | Kernel5 k \<Rightarrow> [KernelVec],
      Inr (case shape5 (packed_kernel kern wb) of (KH, KW, KB, CI, CO) \<Rightarrow>
              \<lparr>shape6 = (CO div VC, KH, KW, KB, VC, CI),
               at6 = (\<lambda>co dh dw b vc ci. at5 (packed_kernel kern wb) dh dw b ci (co * VC + vc))\<rparr>))"
  by (simp add: kernel_vec_spatial_pack_nhwc_def packed_kernel_def Let_def
      split: kernel.splits prod.splits)

lemma kernel_vec_shape_vc:
  "VC \<noteq> 0 \<Longrightarrow> \<exists>b t OCO KH KW KB CI.
      kernel_vec_spatial_pack_nhwc kern wb VC = (b, Inr t) \<and> shape6 t = (OCO, KH, KW, KB, VC, CI)"
  by (auto simp: kernel_vec_Inr Let_def split: kernel.splits prod.splits)

lemma shape6_pad6_last:
  "shape6 t = (s0, s1, s2, s3, s4, s5) \<Longrightarrow>
   shape6 (pad6 t (0, 0, 0, 0, 0, 0) (0, 0, 0, 0, 0, p)) = (s0, s1, s2, s3, s4, s5 + p)"
  by (simp add: pad6_def)

lemma entry_shape:
  assumes r: "snd (bitserial_conv2d_nhwc_no_intrinsics red cfg data kern stride padding ab wb pack_dtype out_dtype unipolar) = Inr conv"
    and d: "shape4 data = (N, H, W, CI)"
    and k: "kernel_extents kern CI = (KH, KW, CI_packed, CO)"
    and p: "pad_amounts padding = (TPAD, LPAD, DPAD, RPAD)"
    and s: "strides stride = (HSTR, WSTR)"
  shows "shape4 conv = (1, (H + (TPAD + DPAD) - KH) div HSTR + 1, (W + (LPAD + RPAD) - KW) div WSTR + 1, CO)"
proof -
  obtain bk rk where kv: "kernel_vec_spatial_pack_nhwc kern wb (snd (tile_co cfg)) = (bk, rk)"
    by (cases "kernel_vec_spatial_pack_nhwc kern wb (snd (tile_co cfg))")
  show ?thesis
  proof (cases rk)
    case (Inl e)
    with r d k p s kv show ?thesis
      by (simp add: bitserial_conv2d_nhwc_no_intrinsics_def Let_def split: if_splits)
  next
    case (Inr kv0)
    obtain s0 s1 s2 s3 s4 s5 where sh: "shape6 kv0 = (s0, s1, s2, s3, s4, s5)"
      by (cases "shape6 kv0") auto
    have sh5: "shape5 (bitpack_data data ab) = (N, H, W, int ab, CI div 8)"
      using d by (simp add: bitpack_data_def)
    from r d k p s kv Inr sh sh5 show ?thesis
      by (auto simp add: bitserial_conv2d_nhwc_no_intrinsics_def Let_def shape6_pad6_last conv_compute_def split: if_splits)
  qed
qed

lemma entry_returns:
  assumes "fst (shape4 data) = 1" "pack_dtype = ''uint8''" "out_dtype = ''int16''"
    and s: "strides stride = (HSTR, WSTR)" and "HSTR \<noteq> 0" "WSTR \<noteq> 0"
    and vc: "snd (tile_co cfg) \<noteq> 0" and "snd (tile_oh cfg) \<noteq> 0" "snd (tile_ow cfg) \<noteq> 0"
  shows "\<exists>built conv. bitserial_conv2d_nhwc_no_intrinsics red cfg data kern stride padding ab wb pack_dtype out_dtype unipolar = (built, Inr conv)"
proof -
  obtain N H W CI where d: "shape4 data = (N, H, W, CI)" by (cases "shape4 data") auto
  obtain KH KW CI_packed CO where k: "kernel_extents kern CI = (KH, KW, CI_packed, CO)"
    by (cases "kernel_extents kern CI") auto
  obtain TPAD LPAD DPAD RPAD where p: "pad_amounts padding = (TPAD, LPAD, DPAD, RPAD)"
    by (cases "pad_amounts padding") auto
  obtain bk kv0 s0 s1 s2 s3 s5 where kv: "kernel_vec_spatial_pack_nhwc kern wb (snd (tile_co cfg)) = (bk, Inr kv0)"
    and sh: "shape6 kv0 = (s0, s1, s2, s3, snd (tile_co cfg), s5)"
    using kernel_vec_shape_vc[OF vc] by blast
  have sh5: "shape5 (bitpack_data data ab) = (N, H, W, int ab, CI div 8)"
    using d by (simp add: bitpack_data_def)
  from assms d k p kv sh sh5 show ?thesis
    by (simp add: bitserial_conv2d_nhwc_no_intrinsics_def Let_def shape6_pad6_last)
qed

text \<open>
  C5. The tensor that the entry point returns has the shape
  \<open>(1, (H + pad_h - KH) div stride_h + 1, (W + pad_w - KW) div stride_w + 1, out_channels)\<close>,
  with \<open>pad_h\<close> the sum of the top and bottom and \<open>pad_w\<close> the sum of the left and right
  padding amounts and the division Python's floor division; and a call with batch size 1, the
  two fixed element types, non-zero strides and non-zero tile widths does return a tensor.
\<close>

theorem output_shape_law:
  assumes "shape4 data = (N, H, W, CI)"
    and "kernel_extents kern CI = (KH, KW, CI_packed, CO)"
    and "pad_amounts padding = (TPAD, LPAD, DPAD, RPAD)"
    and "strides stride = (HSTR, WSTR)"
  shows "(\<forall>conv. snd (bitserial_conv2d_nhwc_no_intrinsics red cfg data kern stride padding ab wb
                      pack_dtype out_dtype unipolar) = Inr conv \<longrightarrow>
            shape4 conv = (1, (H + (TPAD + DPAD) - KH) div HSTR + 1,
                           (W + (LPAD + RPAD) - KW) div WSTR + 1, CO))
       \<and> (N = 1 \<and> pack_dtype = ''uint8'' \<and> out_dtype = ''int16'' \<and> HSTR \<noteq> 0 \<and> WSTR \<noteq> 0
            \<and> snd (tile_co cfg) \<noteq> 0 \<and> snd (tile_oh cfg) \<noteq> 0 \<and> snd (tile_ow cfg) \<noteq> 0 \<longrightarrow>
          (\<exists>built conv. bitserial_conv2d_nhwc_no_intrinsics red cfg data kern stride padding ab wb
                      pack_dtype out_dtype unipolar = (built, Inr conv)))"
  using entry_shape[OF _ assms] entry_returns[OF _ _ _ assms(4)] assms(1)
  by auto

theorem output_shape_law_witness:
  "\<exists>built conv.
     bitserial_conv2d_nhwc_no_intrinsics te_sum
       \<lparr>tile_co = (1, 8), tile_oh = (3, 2), tile_ow = (3, 2), tile_ci = (1, 8),
        reorder_0 = [0, 1, 2, 3, 4, 5, 6, 7, 8, 9, 10, 11, 12]\<rparr>
       \<lparr>shape4 = (1, 8, 8, 16), at4 = (\<lambda>n h w c. 1)\<rparr>
       (Kernel4 \<lparr>shape4 = (3, 3, 16, 8), at4 = (\<lambda>dh dw c co. 1)\<rparr>)
       (StrideInt 1) (PadInt 0) 1 1 ''uint8'' ''int16'' False = (built, Inr conv)
     \<and> shape4 conv = (1, 6, 6, 8)"
proof -
  let ?cfg = "\<lparr>tile_co = (1, 8), tile_oh = (3, 2), tile_ow = (3, 2), tile_ci = (1, 8),
        reorder_0 = [0, 1, 2, 3, 4, 5, 6, 7, 8, 9, 10, 11, 12]\<rparr>"
  let ?d = "\<lparr>shape4 = (1, 8, 8, 16), at4 = (\<lambda>n h w c. (1::int))\<rparr>"
  let ?k = "Kernel4 \<lparr>shape4 = (3, 3, 16, 8), at4 = (\<lambda>dh dw c co. (1::int))\<rparr>"
  have a: "shape4 ?d = (1, 8, 8, 16)" by simp
  have b: "kernel_extents ?k 16 = (3, 3, 2, 8)" by (simp add: kernel_extents_def)
  have c: "pad_amounts (PadInt 0) = (0, 0, 0, 0)" by (simp add: pad_amounts_def get_pad_tuple_def)
  have d: "strides (StrideInt 1) = (1, 1)" by (simp add: strides_def)
  note t = output_shape_law[OF a b c d, of te_sum ?cfg 1 1 "''uint8''" "''int16''" False]
  from t obtain built conv where r: "bitserial_conv2d_nhwc_no_intrinsics te_sum ?cfg ?d ?k
       (StrideInt 1) (PadInt 0) 1 1 ''uint8'' ''int16'' False = (built, Inr conv)"
    by auto
  with t have "shape4 conv = (1, 6, 6, 8)" by simp
  with r show ?thesis by blast
qed

lemma mem_split_candidates:
  "x \<in> set (split_candidates len) \<longleftrightarrow>
     0 < snd x \<and> snd x \<le> len \<and> len mod snd x = 0 \<and> fst x = len div snd x"
proof
  assume "x \<in> set (split_candidates len)"
  then show "0 < snd x \<and> snd x \<le> len \<and> len mod snd x = 0 \<and> fst x = len div snd x"
    by (auto simp: split_candidates_def)
next
  assume a: "0 < snd x \<and> snd x \<le> len \<and> len mod snd x = 0 \<and> fst x = len div snd x"
  then have "nat (snd x) \<in> set (filter (\<lambda>f. len mod int f = 0) [1..<Suc (nat len)])"
    by auto
  then have "(len div int (nat (snd x)), int (nat (snd x))) \<in> set (split_candidates len)"
    unfolding split_candidates_def set_map by (rule imageI)
  with a show "x \<in> set (split_candidates len)" by (cases x) auto
qed

text \<open>
  C8. The configuration space admits exactly these split candidates: for the output channels
  the candidates of inner width 8, for the output height and the output width those of inner
  width at least 2, for the input-channel reduction those of inner width 8 or 16. No other
  candidate passes the filters.
\<close>

theorem config_space_filters:
  "(x \<in> set (tile_co_space CO) \<longleftrightarrow> x \<in> set (split_candidates CO) \<and> snd x = 8) \<and>
   (x \<in> set (tile_oh_space OH) \<longleftrightarrow> x \<in> set (split_candidates OH) \<and> snd x \<ge> 2) \<and>
   (x \<in> set (tile_ow_space OW) \<longleftrightarrow> x \<in> set (split_candidates OW) \<and> snd x \<ge> 2) \<and>
   (x \<in> set (tile_ci_space CI_packed) \<longleftrightarrow>
      x \<in> set (split_candidates CI_packed) \<and> (snd x = 8 \<or> snd x = 16))"
  by (simp add: tile_co_space_def tile_oh_space_def tile_ow_space_def tile_ci_space_def
      define_split_def)

theorem config_space_filters_witness:
  "(2, 8) \<in> set (tile_co_space 16) \<and> (3, 2) \<in> set (tile_oh_space 6)
   \<and> (2, 3) \<in> set (tile_ow_space 6) \<and> (1, 16) \<in> set (tile_ci_space 16)"
  using config_space_filters[of "(2, 8)" 16 6 6 16] config_space_filters[of "(3, 2)" 16 6 6 16]
    config_space_filters[of "(2, 3)" 16 6 6 16] config_space_filters[of "(1, 16)" 16 6 6 16]
  by (simp add: mem_split_candidates)

text \<open>
  C9. The loop-order axis is a closed set of exactly two candidates. Each candidate is a
  permutation of the loop list handed to \<open>define_reorder\<close> and ranges over exactly the twelve
  logical loop variables of the accumulation (the input-channel reduction entering as its split
  parts \<open>ci_o\<close> and \<open>ci_i\<close>). The two candidates agree in every position but the two outer
  reduction loops: kernel height before kernel width in the first, kernel width before kernel
  height in the second.
\<close>

theorem reorder_candidates:
  "length reorder_0_candidate = 2
   \<and> length conv_out_variables = 12 \<and> distinct conv_out_variables
   \<and> set (map loop_variable (reorder_0_candidate ! 0)) = set conv_out_variables
   \<and> set (map loop_variable (reorder_0_candidate ! 1)) = set conv_out_variables
   \<and> set (reorder_0_candidate ! 0) = set reorder_0_axes \<and> distinct (reorder_0_candidate ! 0)
   \<and> set (reorder_0_candidate ! 1) = set reorder_0_axes \<and> distinct (reorder_0_candidate ! 1)
   \<and> reorder_0_candidate ! 0 \<noteq> reorder_0_candidate ! 1
   \<and> take 6 (reorder_0_candidate ! 0) = take 6 (reorder_0_candidate ! 1)
   \<and> drop 8 (reorder_0_candidate ! 0) = drop 8 (reorder_0_candidate ! 1)
   \<and> take 2 (drop 6 (reorder_0_candidate ! 0)) = [AxKH, AxKW]
   \<and> take 2 (drop 6 (reorder_0_candidate ! 1)) = [AxKW, AxKH]
   \<and> reorder_0_space = [[0, 1, 2, 3, 4, 5, 6, 7, 8, 9, 10, 11, 12],
                          [0, 1, 2, 3, 4, 5, 7, 6, 8, 9, 10, 11, 12]]"
  by (auto simp add: reorder_0_candidate_def reorder_0_axes_def reorder_0_space_def
      define_reorder_def conv_out_variables_def)

text \<open>
  C3, at the failing input. For a packed input-channel count of 1 (eight input channels) the
  entry point takes the remainder \<open>1 mod 8 = 1\<close> as the padding amount: both tensors are
  padded by one packed channel to a count of 2, which is not a multiple of 8.
\<close>

theorem channel_pad_remainder:
  "channel_pad 1 = (1, 2) \<and> snd (channel_pad 1) mod 8 \<noteq> 0
   \<and> fst (bitserial_conv2d_nhwc_no_intrinsics te_sum
       \<lparr>tile_co = (1, 8), tile_oh = (1, 2), tile_ow = (1, 2), tile_ci = (1, 8),
        reorder_0 = [0, 1, 2, 3, 4, 5, 6, 7, 8, 9, 10, 11, 12]\<rparr>
       \<lparr>shape4 = (1, 2, 2, 8), at4 = (\<lambda>n h w c. 1)\<rparr>
       (Kernel4 \<lparr>shape4 = (1, 1, 8, 8), at4 = (\<lambda>dh dw c co. 1)\<rparr>)
       (StrideInt 1) (PadInt 0) 1 1 ''uint8'' ''int16'' False)
     = [Bitpack, Bitpack, KernelVec, KernelPad [0, 0, 0, 0, 0, 0] [0, 0, 0, 0, 0, 1],
        DataPad [0, 0, 0, 0, 0] [0, 0, 0, 0, 1], DataVec, ConvVec False, Conv]"
  by (simp add: bitserial_conv2d_nhwc_no_intrinsics_def kernel_extents_def pad_amounts_def
      get_pad_tuple_def strides_def channel_pad_def kernel_vec_spatial_pack_nhwc_def
      bitpack_kernel_def bitpack_data_def pad6_def Let_def)

text \<open>
  C4, at the failing input. With the padding \<open>(top, left, bottom, right) = (1, 0, 0, 0)\<close> no
  padding node is constructed at all, while the output height 3 is computed from the padded
  height \<open>4 + 1\<close>.
\<close>

theorem top_only_padding_builds_no_pad:
  "fst (bitserial_conv2d_nhwc_no_intrinsics te_sum
       \<lparr>tile_co = (1, 8), tile_oh = (1, 3), tile_ow = (1, 2), tile_ci = (1, 8),
        reorder_0 = [0, 1, 2, 3, 4, 5, 6, 7, 8, 9, 10, 11, 12]\<rparr>
       \<lparr>shape4 = (1, 4, 4, 64), at4 = (\<lambda>n h w c. if h = 2 then 1 else 0)\<rparr>
       (Kernel4 \<lparr>shape4 = (3, 3, 64, 8), at4 = (\<lambda>dh dw c co. 1)\<rparr>)
       (StrideInt 1) (Pad4 1 0 0 0) 1 1 ''uint8'' ''int16'' False)
     = [Bitpack, Bitpack, KernelVec, DataVec, ConvVec False, Conv]
   \<and> map_sum id shape4 (snd (bitserial_conv2d_nhwc_no_intrinsics te_sum
       \<lparr>tile_co = (1, 8), tile_oh = (1, 3), tile_ow = (1, 2), tile_ci = (1, 8),
        reorder_0 = [0, 1, 2, 3, 4, 5, 6, 7, 8, 9, 10, 11, 12]\<rparr>
       \<lparr>shape4 = (1, 4, 4, 64), at4 = (\<lambda>n h w c. if h = 2 then 1 else 0)\<rparr>
       (Kernel4 \<lparr>shape4 = (3, 3, 64, 8), at4 = (\<lambda>dh dw c co. 1)\<rparr>)
       (StrideInt 1) (Pad4 1 0 0 0) 1 1 ''uint8'' ''int16'' False))
     = Inr (1, 3, 2, 8)"
  by (simp add: bitserial_conv2d_nhwc_no_intrinsics_def kernel_extents_def pad_amounts_def
      get_pad_tuple_def strides_def channel_pad_def kernel_vec_spatial_pack_nhwc_def
      bitpack_kernel_def bitpack_data_def pad6_def Let_def conv_compute_def)

section \<open>The accumulation expressions evaluated\<close>

lemma bipolar_conv_expr_built:
  "bipolar_conv_expr =
     ShiftLeft (Popcount (BitAnd (Cast UInt16 KernelElem) (Cast UInt16 DataElem)))
       (Cast UInt16 (Add VarKB VarIB))"
  by (simp add: bipolar_conv_expr_def op_shl_def op_and_def op_add_def astype_def match_types_def)

lemma unipolar_conv_expr_built:
  "unipolar_conv_expr =
     ShiftLeft
       (Sub (Popcount (BitAnd (Cast Int16 KernelElem) (Cast Int16 DataElem)))
            (Popcount (BitAnd (BitNot (Cast Int16 KernelElem)) (Cast Int16 DataElem))))
       (Cast Int16 (Add VarKB VarIB))"
  by (simp add: unipolar_conv_expr_def op_shl_def op_and_def op_add_def op_sub_def astype_def
      match_types_def)

lemma length_filter_upt_sum:
  "int (length (filter P [0..<n])) = (\<Sum>i<n. if P i then 1 else 0)"
  by (induction n) simp_all

lemma popcount_sum: "int (popcount (x :: uint8)) = (\<Sum>i<8. if bit x i then 1 else 0)"
  by (simp add: popcount_def length_filter_upt_sum)

lemma filter_bit_uint8_16:
  "filter (bit (uint (x :: uint8))) [0..<16] = filter (bit x) [0..<8]"
proof -
  have "[0..<16] = [0..<8] @ [8..<16]" by (simp add: upt_add_eq_append[of 0 8 8, simplified])
  moreover have "filter (bit (uint x)) [8..<16] = []"
    by (auto simp: filter_empty_conv bit_uint_iff)
  moreover have "filter (bit (uint x)) [0..<8] = filter (bit x) [0..<8]"
    by (rule filter_cong) (auto simp: bit_uint_iff)
  ultimately show ?thesis by simp
qed

lemma uint8_bounds: "0 \<le> uint (x :: uint8)" "uint (x :: uint8) < 256"
  using uint_lt2p[of x] by simp_all

lemma take_bit16_uint8: "take_bit 16 (uint (x :: uint8)) = uint x"
  using uint8_bounds[of x] by (simp add: take_bit_int_eq_self)

lemma signed_take_bit15_small: "- 32768 \<le> (z :: int) \<Longrightarrow> z < 32768 \<Longrightarrow> signed_take_bit 15 z = z"
  by (simp add: signed_take_bit_int_eq_self)

lemma signed_take_bit31_small: "- 32768 \<le> (z :: int) \<Longrightarrow> z < 32768 \<Longrightarrow> signed_take_bit 31 z = z"
  by (simp add: signed_take_bit_int_eq_self)

lemma word16_take_bit: "(word_of_int (take_bit 16 z) :: word16) = word_of_int z"
  by (simp add: word_of_int_eq_iff)

lemma word16_signed_take_bit: "(word_of_int (signed_take_bit 15 z) :: word16) = word_of_int z"
  by (simp add: word_of_int_eq_iff take_bit_signed_take_bit)

lemma bipolar_term_exact:
  assumes "0 \<le> kb + ib" "kb + ib < 32768"
  shows "bipolar_term w a kb ib = word_of_int (int (popcount (w AND a)) * 2 ^ nat (kb + ib))"
proof -
  have s: "take_bit 16 (signed_take_bit 31 (kb + ib)) = kb + ib"
    using assms by (simp add: signed_take_bit31_small take_bit_int_eq_self)
  have u: "uint w AND uint a = uint (w AND a)" by (simp add: uint_and)
  show ?thesis
    by (simp add: bipolar_term_def bipolar_conv_expr_built wrap_def take_bit16_uint8 s u
        filter_bit_uint8_16 word16_take_bit push_bit_eq_mult popcount_def)
qed

lemma not_uint8_and: "NOT (uint (w :: uint8)) AND uint (a :: uint8) = uint (NOT w AND a)"
  by (rule bit_eqI) (auto simp: bit_and_iff bit_not_iff bit_uint_iff)

lemma unipolar_term_exact:
  assumes "0 \<le> kb + ib" "kb + ib < 32768"
  shows "unipolar_term w a kb ib =
     word_of_int ((int (popcount (w AND a)) - int (popcount (NOT w AND a))) * 2 ^ nat (kb + ib))"
proof -
  have s: "signed_take_bit 15 (signed_take_bit 31 (kb + ib)) = kb + ib"
    using assms by (simp add: signed_take_bit31_small signed_take_bit15_small)
  have s2: "signed_take_bit 15 (kb + ib) = kb + ib"
    using assms by (simp add: signed_take_bit15_small)
  have c: "signed_take_bit 15 (uint x) = uint x" for x :: uint8
    using uint8_bounds[of x] by (intro signed_take_bit15_small) linarith+
  have n: "signed_take_bit 15 (NOT (uint w)) = NOT (uint w)"
    unfolding not_int_def using uint8_bounds[of w] by (intro signed_take_bit15_small) linarith+
  have u: "uint w AND uint a = uint (w AND a)" by (simp add: uint_and)
  have p: "int (length (filter (bit x) [0..<8])) \<le> 8" for x :: uint8
    using length_filter_le[of "bit x" "[0..<8]"] by simp
  have d: "signed_take_bit 15 (int (length (filter (bit (w AND a)) [0..<8]))
             - int (length (filter (bit (NOT w AND a)) [0..<8])))
           = int (length (filter (bit (w AND a)) [0..<8]))
             - int (length (filter (bit (NOT w AND a)) [0..<8]))"
    using p[of "w AND a"] p[of "NOT w AND a"] by (intro signed_take_bit15_small) linarith+
  show ?thesis
    by (simp add: unipolar_term_def unipolar_conv_expr_built wrap_def s s2 c n u not_uint8_and d
        filter_bit_uint8_16 word16_signed_take_bit push_bit_eq_mult popcount_def)
qed


section \<open>Bit planes and sums\<close>

lemma bit_pack_unit: "bit (pack_unit f) n \<longleftrightarrow> n < 8 \<and> f (int (7 - n))"
  by (auto simp: pack_unit_def bit_horner_sum_bit_word_iff rev_nth)

lemma pack_unit_False: "pack_unit (\<lambda>k. False) = 0"
  by (rule bit_word_eqI) (simp add: bit_pack_unit)

lemma sum_rev8: "(\<Sum>i<8. g (7 - i)) = (\<Sum>i<8. ((g :: nat \<Rightarrow> int) i))"
  using sum.nat_diff_reindex[of g 8] by simp

lemma popcount_pack_and:
  "int (popcount (pack_unit f AND pack_unit g)) = (\<Sum>k<8. if f (int k) \<and> g (int k) then 1 else 0)"
proof -
  have "int (popcount (pack_unit f AND pack_unit g))
        = (\<Sum>i<8. if f (int (7 - i)) \<and> g (int (7 - i)) then 1 else 0)"
    unfolding popcount_sum by (rule sum.cong) (auto simp: bit_and_iff bit_pack_unit)
  also have "\<dots> = (\<Sum>k<8. if f (int k) \<and> g (int k) then 1 else 0)"
    by (rule sum_rev8[of "\<lambda>i. if f (int i) \<and> g (int i) then 1 else 0"])
  finally show ?thesis .
qed

lemma popcount_pack_not_and:
  "int (popcount (NOT (pack_unit f) AND pack_unit g))
     = (\<Sum>k<8. if \<not> f (int k) \<and> g (int k) then 1 else 0)"
proof -
  have "int (popcount (NOT (pack_unit f) AND pack_unit g))
        = (\<Sum>i<8. if \<not> f (int (7 - i)) \<and> g (int (7 - i)) then 1 else 0)"
    unfolding popcount_sum by (rule sum.cong) (auto simp: bit_and_iff bit_not_iff bit_pack_unit)
  also have "\<dots> = (\<Sum>k<8. if \<not> f (int k) \<and> g (int k) then 1 else 0)"
    by (rule sum_rev8[of "\<lambda>i. if \<not> f (int i) \<and> g (int i) then 1 else 0"])
  finally show ?thesis .
qed

lemma reduce_sum_eq_sum: "reduce_sum n f = (\<Sum>i<n. f (int i))"
  by (induction n) (simp_all add: add.commute)

lemma reduce_sum_word_of_int:
  "reduce_sum n (\<lambda>i. (word_of_int (g i) :: word16)) = word_of_int (reduce_sum n g)"
  by (induction n) simp_all

lemma reduce_sum_cong:
  "(\<And>i. i < n \<Longrightarrow> f (int i) = g (int i)) \<Longrightarrow> reduce_sum n f = reduce_sum n g"
  by (simp add: reduce_sum_eq_sum)

lemma sum_blocks8: "(\<Sum>ci<n. \<Sum>k<8. g (ci * 8 + k)) = (\<Sum>c<8 * n. ((g :: nat \<Rightarrow> int) c))"
proof (induction n)
  case 0
  then show ?case by simp
next
  case (Suc n)
  have "(\<Sum>c<8 * Suc n. g c) = (\<Sum>c<8 * n. g c) + (\<Sum>c = 8 * n..<8 * n + 8. g c)"
    using sum.atLeastLessThan_concat[of 0 "8 * n" "8 * n + 8" g]
    by (simp add: lessThan_atLeast0 add.commute)
  also have "(\<Sum>c = 8 * n..<8 * n + 8. g c) = (\<Sum>k<8. g (n * 8 + k))"
    using sum.shift_bounds_nat_ivl[of g 0 "8 * n" 8]
    by (simp add: lessThan_atLeast0 add.commute mult.commute)
  finally show ?case using Suc by simp
qed

lemma take_bit_int_sum: "take_bit n (x :: int) = (\<Sum>b<n. (if bit x b then 1 else 0) * 2 ^ b)"
proof -
  have "take_bit n x = horner_sum of_bool 2 (map (bit x) [0..<n])"
    by (simp add: horner_sum_bit_eq_take_bit)
  also have "\<dots> = (\<Sum>b = 0..<n. of_bool (bit x b) * 2 ^ b)"
    by (simp add: horner_sum_eq_sum)
  also have "\<dots> = (\<Sum>b<n. (if bit x b then 1 else 0) * 2 ^ b)"
    by (simp add: lessThan_atLeast0 of_bool_def)
  finally show ?thesis .
qed

lemma unipolar_weight_sum:
  "unipolar_weight n v = (\<Sum>b<n. if bit v b then 2 ^ b else - (2 ^ b))"
  by (simp add: unipolar_weight_def reduce_sum_eq_sum cong: if_cong)

lemma bit_product:
  "(\<Sum>kb<KB. \<Sum>ib<IB. (if bit (w :: int) kb \<and> bit (a :: int) ib then 1 else 0) * 2 ^ (kb + ib))
     = take_bit IB a * take_bit KB w"
proof -
  have "take_bit IB a * take_bit KB w
        = (\<Sum>kb<KB. \<Sum>ib<IB. ((if bit a ib then 1 else 0) * 2 ^ ib) * ((if bit w kb then 1 else 0) * 2 ^ kb))"
    unfolding take_bit_int_sum sum_product by (rule sum.swap)
  also have "\<dots> = (\<Sum>kb<KB. \<Sum>ib<IB. (if bit w kb \<and> bit a ib then 1 else 0) * 2 ^ (kb + ib))"
    by (intro sum.cong refl) (simp add: power_add)
  finally show ?thesis by simp
qed

lemma bit_product_unipolar:
  "(\<Sum>kb<KB. \<Sum>ib<IB. ((if bit (w :: int) kb \<and> bit (a :: int) ib then 1 else 0)
        - (if \<not> bit w kb \<and> bit a ib then 1 else 0)) * 2 ^ (kb + ib))
     = take_bit IB a * unipolar_weight KB w"
proof -
  have "take_bit IB a * unipolar_weight KB w
        = (\<Sum>kb<KB. \<Sum>ib<IB. ((if bit a ib then 1 else 0) * 2 ^ ib) * (if bit w kb then 2 ^ kb else - (2 ^ kb)))"
    unfolding take_bit_int_sum unipolar_weight_sum sum_product by (rule sum.swap)
  also have "\<dots> = (\<Sum>kb<KB. \<Sum>ib<IB. ((if bit w kb \<and> bit a ib then 1 else 0)
        - (if \<not> bit w kb \<and> bit a ib then 1 else 0)) * 2 ^ (kb + ib))"
    by (intro sum.cong refl) (simp add: power_add)
  finally show ?thesis by simp
qed

section \<open>The elements of the output tensor\<close>

lemma tile_index: "(h div V) * V * S + ((h mod V) * S + d) = h * S + (d :: int)"
proof -
  have "h * S = (h div V * V + h mod V) * S" by simp
  also have "\<dots> = h div V * V * S + h mod V * S" by (rule distrib_right)
  finally show ?thesis by simp
qed

lemma kernel_unit_pad6:
  "at6 (if CIk mod 8 \<noteq> 0 \<and> CIp mod 8 \<noteq> 0
        then pad6 \<lparr>shape6 = (OCO, KH, KW, KB, VC, CIk),
                   at6 = (\<lambda>co dh dw b vc ci. at5 kq dh dw b ci (co * VC + vc))\<rparr>
               (0, 0, 0, 0, 0, 0) (0, 0, 0, 0, 0, CIp mod 8)
        else \<lparr>shape6 = (OCO, KH, KW, KB, VC, CIk),
              at6 = (\<lambda>co dh dw b vc ci. at5 kq dh dw b ci (co * VC + vc))\<rparr>)
     (co div VC) dh dw kb (co mod VC) ci
   = kernel_unit kq CIk CIp dh dw kb ci co"
  by (simp add: pad6_def in_padded_def kernel_unit_def)

lemma entry_element_kernel_vec:
  assumes d: "shape4 data = (1, H, W, CI)"
    and ke: "kernel_extents kern CI = (KH, KW, CIp, CO)"
    and shk: "shape5 (packed_kernel kern wb) = (KH', KW', KB, CIk, CO')"
    and p: "pad_amounts padding = (T, L, D, R)"
    and s: "strides stride = (HSTR, WSTR)"
    and nz: "HSTR \<noteq> 0" "WSTR \<noteq> 0" "snd (tile_co cfg) \<noteq> 0" "snd (tile_oh cfg) \<noteq> 0"
            "snd (tile_ow cfg) \<noteq> 0"
  shows "\<exists>built conv.
     bitserial_conv2d_nhwc_no_intrinsics red cfg data kern stride padding ab wb
        ''uint8'' ''int16'' unipolar = (built, Inr conv)
     \<and> (\<forall>n h w co. at4 conv n h w co =
          red (KH', KW', KB, int ab, CIk + (if CIk mod 8 \<noteq> 0 \<and> CIp mod 8 \<noteq> 0 then CIp mod 8 else 0))
            (\<lambda>dh dw kb ib ci.
               (if unipolar then unipolar_term else bipolar_term)
                 (at6 (if CIk mod 8 \<noteq> 0 \<and> CIp mod 8 \<noteq> 0
                       then pad6 \<lparr>shape6 = (CO' div snd (tile_co cfg), KH', KW', KB, snd (tile_co cfg), CIk),
                         at6 = (\<lambda>co dh dw b vc ci. at5 (packed_kernel kern wb) dh dw b ci (co * snd (tile_co cfg) + vc))\<rparr>
                         (0, 0, 0, 0, 0, 0) (0, 0, 0, 0, 0, CIp mod 8)
                       else \<lparr>shape6 = (CO' div snd (tile_co cfg), KH', KW', KB, snd (tile_co cfg), CIk),
                         at6 = (\<lambda>co dh dw b vc ci. at5 (packed_kernel kern wb) dh dw b ci (co * snd (tile_co cfg) + vc))\<rparr>)
                    (co div snd (tile_co cfg)) dh dw kb (co mod snd (tile_co cfg)) ci)
                 (at5 (padded_data data ab (CIp mod 8) T L D R) n (h * HSTR + dh) (w * WSTR + dw) ib ci)
                 kb ib))"
proof -
  have sh5: "shape5 (bitpack_data data ab) = (1, H, W, int ab, CI div 8)"
    using d by (simp add: bitpack_data_def)
  show ?thesis
  proof (cases "T \<noteq> 0 \<and> R \<noteq> 0")
    case True
    then have t: "T \<noteq> 0" "R \<noteq> 0" by simp_all
    from d ke p s nz sh5 shk t show ?thesis
      by (cases unipolar; cases "CIk mod 8 = 0"; cases "CIp mod 8 = 0")
         (simp_all add: bitserial_conv2d_nhwc_no_intrinsics_def Let_def kernel_vec_Inr
            channel_pad_def shape6_pad6_last conv_compute_def data_vec_compute_def
            bipolar_conv_def unipolar_conv_def tile_index padded_data_def)
  next
    case False
    from d ke p s nz sh5 shk show ?thesis
      by (cases unipolar; cases "CIk mod 8 = 0"; cases "CIp mod 8 = 0")
         (simp_all add: False bitserial_conv2d_nhwc_no_intrinsics_def Let_def kernel_vec_Inr
            channel_pad_def shape6_pad6_last conv_compute_def data_vec_compute_def
            bipolar_conv_def unipolar_conv_def tile_index padded_data_def)
  qed
qed

lemma entry_element_general:
  assumes d: "shape4 data = (1, H, W, CI)"
    and ke: "kernel_extents kern CI = (KH, KW, CIp, CO)"
    and shk: "shape5 (packed_kernel kern wb) = (KH', KW', KB, CIk, CO')"
    and p: "pad_amounts padding = (T, L, D, R)"
    and s: "strides stride = (HSTR, WSTR)"
    and nz: "HSTR \<noteq> 0" "WSTR \<noteq> 0" "snd (tile_co cfg) \<noteq> 0" "snd (tile_oh cfg) \<noteq> 0"
            "snd (tile_ow cfg) \<noteq> 0"
  shows "\<exists>built conv.
     bitserial_conv2d_nhwc_no_intrinsics red cfg data kern stride padding ab wb
        ''uint8'' ''int16'' unipolar = (built, Inr conv)
     \<and> (\<forall>n h w co. at4 conv n h w co =
          red (KH', KW', KB, int ab, CIk + (if CIk mod 8 \<noteq> 0 \<and> CIp mod 8 \<noteq> 0 then CIp mod 8 else 0))
            (\<lambda>dh dw kb ib ci.
               (if unipolar then unipolar_term else bipolar_term)
                 (kernel_unit (packed_kernel kern wb) CIk CIp dh dw kb ci co)
                 (at5 (padded_data data ab (CIp mod 8) T L D R) n (h * HSTR + dh) (w * WSTR + dw) ib ci)
                 kb ib))"
  using entry_element_kernel_vec[OF assms, of red ab unipolar]
  unfolding kernel_unit_pad6 .

lemma pad_channels_sum:
  assumes "0 \<le> m" and z: "\<And>ci. CIp \<le> int ci \<Longrightarrow> g ci = (0 :: int)"
  shows "(\<Sum>ci<nat (CIp + m). g ci) = (\<Sum>ci<nat CIp. g ci)"
proof (rule sum.mono_neutral_right)
  show "finite {..<nat (CIp + m)}" by simp
  show "{..<nat CIp} \<subseteq> {..<nat (CIp + m)}" using assms(1) by auto
  show "\<forall>i\<in>{..<nat (CIp + m)} - {..<nat CIp}. g i = 0" using z by auto
qed

lemma bitserial_channels:
  "(\<Sum>kb<KB. \<Sum>ib<IB. \<Sum>ci<n.
      int (popcount (pack_unit (\<lambda>j. bit (wv (int ci * 8 + j)) kb)
                     AND pack_unit (\<lambda>j. bit (av (int ci * 8 + j)) ib))) * 2 ^ (kb + ib))
   = (\<Sum>c<8 * n. take_bit IB (av (int c)) * take_bit KB (wv (int c)))"
proof -
  let ?g = "\<lambda>kb ib (c::nat). (if bit (wv (int c)) kb \<and> bit (av (int c)) ib then 1 else 0) * (2::int) ^ (kb + ib)"
  have "(\<Sum>kb<KB. \<Sum>ib<IB. \<Sum>ci<n.
      int (popcount (pack_unit (\<lambda>j. bit (wv (int ci * 8 + j)) kb)
                     AND pack_unit (\<lambda>j. bit (av (int ci * 8 + j)) ib))) * 2 ^ (kb + ib))
     = (\<Sum>kb<KB. \<Sum>ib<IB. \<Sum>ci<n. \<Sum>j<8. ?g kb ib (ci * 8 + j))"
    by (simp add: popcount_pack_and sum_distrib_right)
  also have "\<dots> = (\<Sum>kb<KB. \<Sum>ib<IB. \<Sum>c<8 * n. ?g kb ib c)"
  proof -
    have blk: "(\<Sum>ci<n. \<Sum>j<8. ?g kb ib (ci * 8 + j)) = (\<Sum>c<8 * n. ?g kb ib c)" for kb ib
      by (rule sum_blocks8)
    show ?thesis by (simp only: blk)
  qed
  also have "\<dots> = (\<Sum>kb<KB. \<Sum>c<8 * n. \<Sum>ib<IB. ?g kb ib c)"
    by (intro sum.cong refl sum.swap)
  also have "\<dots> = (\<Sum>c<8 * n. \<Sum>kb<KB. \<Sum>ib<IB. ?g kb ib c)"
    by (rule sum.swap)
  also have "\<dots> = (\<Sum>c<8 * n. take_bit IB (av (int c)) * take_bit KB (wv (int c)))"
    by (simp only: bit_product)
  finally show ?thesis .
qed

lemma bitserial_channels_unipolar:
  "(\<Sum>kb<KB. \<Sum>ib<IB. \<Sum>ci<n.
      (int (popcount (pack_unit (\<lambda>j. bit (wv (int ci * 8 + j)) kb)
                     AND pack_unit (\<lambda>j. bit (av (int ci * 8 + j)) ib)))
       - int (popcount (NOT (pack_unit (\<lambda>j. bit (wv (int ci * 8 + j)) kb))
                     AND pack_unit (\<lambda>j. bit (av (int ci * 8 + j)) ib)))) * 2 ^ (kb + ib))
   = (\<Sum>c<8 * n. take_bit IB (av (int c)) * unipolar_weight KB (wv (int c)))"
proof -
  let ?g = "\<lambda>kb ib (c::nat). ((if bit (wv (int c)) kb \<and> bit (av (int c)) ib then 1 else 0)
        - (if \<not> bit (wv (int c)) kb \<and> bit (av (int c)) ib then 1 else 0)) * (2::int) ^ (kb + ib)"
  have "(\<Sum>kb<KB. \<Sum>ib<IB. \<Sum>ci<n.
      (int (popcount (pack_unit (\<lambda>j. bit (wv (int ci * 8 + j)) kb)
                     AND pack_unit (\<lambda>j. bit (av (int ci * 8 + j)) ib)))
       - int (popcount (NOT (pack_unit (\<lambda>j. bit (wv (int ci * 8 + j)) kb))
                     AND pack_unit (\<lambda>j. bit (av (int ci * 8 + j)) ib)))) * 2 ^ (kb + ib))
     = (\<Sum>kb<KB. \<Sum>ib<IB. \<Sum>ci<n. \<Sum>j<8. ?g kb ib (ci * 8 + j))"
    by (simp add: popcount_pack_and popcount_pack_not_and sum_distrib_right
        sum_subtractf[symmetric])
  also have "\<dots> = (\<Sum>kb<KB. \<Sum>ib<IB. \<Sum>c<8 * n. ?g kb ib c)"
  proof -
    have blk: "(\<Sum>ci<n. \<Sum>j<8. ?g kb ib (ci * 8 + j)) = (\<Sum>c<8 * n. ?g kb ib c)" for kb ib
      by (rule sum_blocks8)
    show ?thesis by (simp only: blk)
  qed
  also have "\<dots> = (\<Sum>kb<KB. \<Sum>c<8 * n. \<Sum>ib<IB. ?g kb ib c)"
    by (intro sum.cong refl sum.swap)
  also have "\<dots> = (\<Sum>c<8 * n. \<Sum>kb<KB. \<Sum>ib<IB. ?g kb ib c)"
    by (rule sum.swap)
  also have "\<dots> = (\<Sum>c<8 * n. take_bit IB (av (int c)) * unipolar_weight KB (wv (int c)))"
    by (simp only: bit_product_unipolar)
  finally show ?thesis .
qed

section \<open>The scheduled reduction\<close>

lemma reorder_0_space_eq:
  "reorder_0_space = [[0, 1, 2, 3, 4, 5, 6, 7, 8, 9, 10, 11, 12],
                      [0, 1, 2, 3, 4, 5, 7, 6, 8, 9, 10, 11, 12]]"
  by (simp add: reorder_0_candidate_def reorder_0_axes_def reorder_0_space_def define_reorder_def)

lemma sum_blocks:
  "(\<Sum>ci<m. \<Sum>k<f. g (ci * f + k)) = (\<Sum>c<f * m. ((g :: nat \<Rightarrow> 'a::comm_monoid_add) c))"
proof (induction m)
  case 0
  then show ?case by simp
next
  case (Suc m)
  have "(\<Sum>c<f * Suc m. g c) = (\<Sum>c<f * m. g c) + (\<Sum>c = f * m..<f * m + f. g c)"
    using sum.atLeastLessThan_concat[of 0 "f * m" "f * m + f" g]
    by (simp add: lessThan_atLeast0 add.commute)
  also have "(\<Sum>c = f * m..<f * m + f. g c) = (\<Sum>k<f. g (m * f + k))"
    using sum.shift_bounds_nat_ivl[of g 0 "f * m" f]
    by (simp add: lessThan_atLeast0 add.commute mult.commute)
  finally show ?case using Suc by simp
qed

lemma split_loop_nat:
  assumes "0 < f"
  shows "(\<Sum>co<(n + f - 1) div f. \<Sum>k<f. if co * f + k < n then g (co * f + k) else 0)
         = (\<Sum>c<n. ((g :: nat \<Rightarrow> 'a::comm_monoid_add) c))"
proof -
  let ?m = "(n + f - 1) div f"
  have le: "n \<le> f * ?m"
  proof -
    have "n + f - 1 < f * ?m + f"
      using assms dividend_less_times_div[of f "n + f - 1"] by (simp add: add.commute)
    then show ?thesis using assms by linarith
  qed
  have "(\<Sum>co<?m. \<Sum>k<f. if co * f + k < n then g (co * f + k) else 0)
        = (\<Sum>c<f * ?m. if c < n then g c else 0)"
    by (rule sum_blocks[where f = f and g = "\<lambda>c. if c < n then g c else 0" and m = ?m])
  also have "\<dots> = (\<Sum>c<n. if c < n then g c else 0)"
    by (rule sum.mono_neutral_right) (use le in auto)
  also have "\<dots> = (\<Sum>c<n. g c)"
    by (rule sum.cong) auto
  finally show ?thesis .
qed

lemma split_loop:
  assumes "0 < F"
  shows "(\<Sum>co<nat ((CI + F - 1) div F). \<Sum>k<nat F.
            if int co * F + int k < CI then g (int co * F + int k) else 0)
         = (\<Sum>c<nat CI. ((g :: int \<Rightarrow> 'a::comm_monoid_add) (int c)))"
proof (cases "0 \<le> CI")
  case True
  have m: "nat ((CI + F - 1) div F) = (nat CI + nat F - 1) div nat F"
    using True assms by (simp add: nat_div_distrib nat_add_distrib nat_diff_distrib)
  have "(\<Sum>co<nat ((CI + F - 1) div F). \<Sum>k<nat F.
            if int co * F + int k < CI then g (int co * F + int k) else 0)
        = (\<Sum>co<(nat CI + nat F - 1) div nat F. \<Sum>k<nat F.
            if co * nat F + k < nat CI then g (int (co * nat F + k)) else 0)"
  proof -
    have c: "(co * nat F + k < nat CI) = (int co * F + int k < CI)" for co k
      using assms by (simp add: zless_nat_eq_int_zless)
    have e: "int (co * nat F + k) = int co * F + int k" for co k
      using assms by simp
    show ?thesis unfolding m c e ..
  qed
  also have "\<dots> = (\<Sum>c<nat CI. g (int c))"
    using assms by (intro split_loop_nat[of "nat F" "nat CI" "\<lambda>c. g (int c)"]) simp
  finally show ?thesis .
next
  case False
  then have "(CI + F - 1) div F \<le> (F - 1) div F"
    using assms by (intro zdiv_mono1) simp_all
  moreover have "(F - 1) div F = 0"
    using assms by (simp add: div_pos_pos_trivial)
  ultimately have "(CI + F - 1) div F \<le> 0" by simp
  with False show ?thesis by simp
qed

lemma te_sum_eq_sum:
  "te_sum (KH, KW, KB, IB, CI) f =
     (\<Sum>dh<nat KH. \<Sum>dw<nat KW. \<Sum>kb<nat KB. \<Sum>ib<nat IB. \<Sum>ci<nat CI.
        f (int dh) (int dw) (int kb) (int ib) (int ci))"
  by (simp add: te_sum_def reduce_sum_eq_sum)

lemma scheduled_inner:
  assumes "0 < F"
  shows "(\<Sum>co<nat ((CI + F - 1) div F). \<Sum>kb<nb. \<Sum>ib<nc. \<Sum>k<nat F.
            if int co * F + int k < CI then g kb ib (int co * F + int k) else 0)
         = (\<Sum>kb<nb. \<Sum>ib<nc. \<Sum>ci<nat CI. ((g :: nat \<Rightarrow> nat \<Rightarrow> int \<Rightarrow> 'a::comm_monoid_add) kb ib (int ci)))"
proof -
  let ?t = "\<lambda>co kb ib k. if int co * F + int k < CI then g kb ib (int co * F + int k) else 0"
  have "(\<Sum>co<nat ((CI + F - 1) div F). \<Sum>kb<nb. \<Sum>ib<nc. \<Sum>k<nat F. ?t co kb ib k)
        = (\<Sum>kb<nb. \<Sum>co<nat ((CI + F - 1) div F). \<Sum>ib<nc. \<Sum>k<nat F. ?t co kb ib k)"
    by (rule sum.swap)
  also have "\<dots> = (\<Sum>kb<nb. \<Sum>ib<nc. \<Sum>co<nat ((CI + F - 1) div F). \<Sum>k<nat F. ?t co kb ib k)"
    by (rule sum.cong[OF refl]) (rule sum.swap)
  also have "\<dots> = (\<Sum>kb<nb. \<Sum>ib<nc. \<Sum>ci<nat CI. g kb ib (int ci))"
  proof -
    have "(\<Sum>co<nat ((CI + F - 1) div F). \<Sum>k<nat F. ?t co kb ib k) = (\<Sum>ci<nat CI. g kb ib (int ci))"
      for kb ib
      by (rule split_loop[OF assms, of CI "g kb ib"])
    then show ?thesis by (simp only:)
  qed
  finally show ?thesis .
qed

lemma run_loops_kh_kw:
  "run_loops [AxN, AxOH, AxOW, AxCO, AxVH, AxVW, AxKH, AxKW, AxCI_O, AxKB, AxIB, AxVC, AxCI_I]
      extent env (\<lambda>e. B (e AxKH) (e AxKW) (e AxCI_O) (e AxKB) (e AxIB) (e AxCI_I))
   = (\<Sum>dh<nat (extent AxKH). \<Sum>dw<nat (extent AxKW). \<Sum>co<nat (extent AxCI_O).
        \<Sum>kb<nat (extent AxKB). \<Sum>ib<nat (extent AxIB). \<Sum>k<nat (extent AxCI_I).
          B (int dh) (int dw) (int co) (int kb) (int ib) (int k))"
  by (simp add: reduce_sum_eq_sum)

lemma run_loops_kw_kh:
  "run_loops [AxN, AxOH, AxOW, AxCO, AxVH, AxVW, AxKW, AxKH, AxCI_O, AxKB, AxIB, AxVC, AxCI_I]
      extent env (\<lambda>e. B (e AxKH) (e AxKW) (e AxCI_O) (e AxKB) (e AxIB) (e AxCI_I))
   = (\<Sum>dw<nat (extent AxKW). \<Sum>dh<nat (extent AxKH). \<Sum>co<nat (extent AxCI_O).
        \<Sum>kb<nat (extent AxKB). \<Sum>ib<nat (extent AxIB). \<Sum>k<nat (extent AxCI_I).
          B (int dh) (int dw) (int co) (int kb) (int ib) (int k))"
  by (simp add: reduce_sum_eq_sum)

lemma scheduled_sum_eq_te_sum:
  assumes r: "reorder_0 cfg \<in> set reorder_0_space" and f: "0 < snd (tile_ci cfg)"
  shows "scheduled_sum cfg ext f = te_sum ext f"
proof -
  obtain KH KW KB IB CI where ext: "ext = (KH, KW, KB, IB, CI)" by (cases ext) auto
  let ?F = "snd (tile_ci cfg)"
  let ?g = "\<lambda>dh dw kb ib ci. f (int dh) (int dw) (int kb) (int ib) ci"
  let ?E = "\<lambda>x. case x of AxKH \<Rightarrow> KH | AxKW \<Rightarrow> KW | AxKB \<Rightarrow> KB | AxIB \<Rightarrow> IB
                      | AxCI_O \<Rightarrow> (CI + ?F - 1) div ?F | AxCI_I \<Rightarrow> ?F | _ \<Rightarrow> 1"
  let ?B = "\<lambda>dh dw co kb ib k. if co * ?F + k < CI then f dh dw kb ib (co * ?F + k) else 0"
  have s1: "scheduled_sum cfg ext f =
      run_loops (conv_out_loops cfg) ?E (\<lambda>x. 0)
        (\<lambda>e. ?B (e AxKH) (e AxKW) (e AxCI_O) (e AxKB) (e AxIB) (e AxCI_I))"
    by (simp add: scheduled_sum_def ext Let_def)
  have inner: "(\<Sum>co<nat ((CI + ?F - 1) div ?F). \<Sum>kb<nat KB. \<Sum>ib<nat IB. \<Sum>k<nat ?F.
            if int co * ?F + int k < CI then ?g dh dw kb ib (int co * ?F + int k) else 0)
         = (\<Sum>kb<nat KB. \<Sum>ib<nat IB. \<Sum>ci<nat CI. ?g dh dw kb ib (int ci))" for dh dw
    by (rule scheduled_inner[OF f])
  from r consider "reorder_0 cfg = [0, 1, 2, 3, 4, 5, 6, 7, 8, 9, 10, 11, 12]"
    | "reorder_0 cfg = [0, 1, 2, 3, 4, 5, 7, 6, 8, 9, 10, 11, 12]"
    by (auto simp: reorder_0_space_eq)
  then show ?thesis
  proof cases
    case 1
    have l: "conv_out_loops cfg =
        [AxN, AxOH, AxOW, AxCO, AxVH, AxVW, AxKH, AxKW, AxCI_O, AxKB, AxIB, AxVC, AxCI_I]"
      by (simp add: conv_out_loops_def apply_reorder_def 1)
    have "scheduled_sum cfg ext f =
       (\<Sum>dh<nat KH. \<Sum>dw<nat KW. \<Sum>co<nat ((CI + ?F - 1) div ?F). \<Sum>kb<nat KB. \<Sum>ib<nat IB. \<Sum>k<nat ?F.
            if int co * ?F + int k < CI then ?g dh dw kb ib (int co * ?F + int k) else 0)"
      unfolding s1 l by (subst run_loops_kh_kw[where B = ?B]) simp
    also have "\<dots> = te_sum ext f"
      unfolding inner ext te_sum_eq_sum ..
    finally show ?thesis .
  next
    case 2
    have l: "conv_out_loops cfg =
        [AxN, AxOH, AxOW, AxCO, AxVH, AxVW, AxKW, AxKH, AxCI_O, AxKB, AxIB, AxVC, AxCI_I]"
      by (simp add: conv_out_loops_def apply_reorder_def 2)
    have "scheduled_sum cfg ext f =
       (\<Sum>dw<nat KW. \<Sum>dh<nat KH. \<Sum>co<nat ((CI + ?F - 1) div ?F). \<Sum>kb<nat KB. \<Sum>ib<nat IB. \<Sum>k<nat ?F.
            if int co * ?F + int k < CI then ?g dh dw kb ib (int co * ?F + int k) else 0)"
      unfolding s1 l by (subst run_loops_kw_kh[where B = ?B]) simp
    also have "\<dots> = (\<Sum>dw<nat KW. \<Sum>dh<nat KH. \<Sum>kb<nat KB. \<Sum>ib<nat IB. \<Sum>ci<nat CI. ?g dh dw kb ib (int ci))"
      unfolding inner ..
    also have "\<dots> = te_sum ext f"
      unfolding ext te_sum_eq_sum by (rule sum.swap)
    finally show ?thesis .
  qed
qed

section \<open>The accumulation and the convolution\<close>

lemma popcount_zero [simp]: "popcount (0 :: uint8) = 0"
  by (simp add: popcount_def)

lemma data_unit_padded_input:
  assumes d: "shape4 data = (N, H, W, CI)"
    and pc: "(T \<noteq> 0 \<and> R \<noteq> 0) \<or> (T = 0 \<and> L = 0 \<and> D = 0 \<and> R = 0 \<and> 0 \<le> r \<and> r < H \<and> 0 \<le> s \<and> s < W)"
    and ci: "0 \<le> ci" "ci < CI div 8"
  shows "at5 (padded_data data ab (CI div 8 mod 8) T L D R) 0 r s ib ci
         = pack_unit (\<lambda>j. bit (padded_input data T L r s (ci * 8 + j)) (nat ib))"
  using pc
proof
  assume "T \<noteq> 0 \<and> R \<noteq> 0"
  then show ?thesis
    using d ci
    by (simp add: padded_data_def pad5_def bitpack_data_def padded_input_def in_padded_def
        pack_unit_False)
next
  assume "T = 0 \<and> L = 0 \<and> D = 0 \<and> R = 0 \<and> 0 \<le> r \<and> r < H \<and> 0 \<le> s \<and> s < W"
  then show ?thesis
    using d ci
    by (simp add: padded_data_def pad5_def bitpack_data_def padded_input_def in_padded_def)
qed

lemma data_unit_zero:
  assumes d: "shape4 data = (N, H, W, CI)" and "CI div 8 mod 8 \<noteq> 0" "CI div 8 \<le> ci"
  shows "at5 (padded_data data ab (CI div 8 mod 8) T L D R) n r s ib ci = 0"
  using assms by (simp add: padded_data_def pad5_def bitpack_data_def in_padded_def)

lemma kernel_unit_zero:
  assumes "CIp mod 8 \<noteq> 0" "CIp \<le> ci"
  shows "kernel_unit kq CIp CIp dh dw kb ci co = 0"
  using assms by (simp add: kernel_unit_def)

lemma kernel_unit_in:
  assumes k: "shape4 k = (KH, KW, CI, CO)" and "0 \<le> ci" "ci < CIp"
  shows "kernel_unit (bitpack_kernel k wb) CIp CIp dh dw kb ci co
         = pack_unit (\<lambda>j. bit (at4 k dh dw (ci * 8 + j) co) (nat kb))"
  using assms by (simp add: kernel_unit_def bitpack_kernel_def)

lemma receptive_row:
  assumes "0 < S" "0 \<le> h" "h < (H - KH) div S + 1" "dh < nat KH"
  shows "0 \<le> h * S + int dh \<and> h * S + int dh < H"
proof -
  have "h \<le> (H - KH) div S" using assms(3) by simp
  then have "h * S \<le> (H - KH) div S * S" using assms(1) by (simp add: mult_right_mono)
  also have "\<dots> \<le> H - KH"
    using div_mult_mod_eq[of "H - KH" S] pos_mod_sign[OF assms(1), of "H - KH"] by linarith
  finally have "h * S \<le> H - KH" .
  moreover have "int dh < KH" using assms(4) by simp
  moreover have "0 \<le> h * S" using assms(1,2) by simp
  ultimately show ?thesis by linarith
qed

lemma inner_bipolar:
  assumes d: "shape4 data = (N, H, W, CI)" and k: "shape4 k = (KH, KW, CI, CO)"
    and pc: "(T \<noteq> 0 \<and> R \<noteq> 0) \<or> (T = 0 \<and> L = 0 \<and> D = 0 \<and> R = 0 \<and> 0 \<le> r \<and> r < H \<and> 0 \<le> s \<and> s < W)"
    and c8: "CI mod 8 = 0"
  shows "(\<Sum>kb<wb. \<Sum>ib<ab. \<Sum>ci<nat (CI div 8 + CI div 8 mod 8).
            int (popcount (kernel_unit (bitpack_kernel k wb) (CI div 8) (CI div 8) dh dw (int kb) (int ci) co
                           AND at5 (padded_data data ab (CI div 8 mod 8) T L D R) 0 r s (int ib) (int ci)))
              * 2 ^ (kb + ib))
         = (\<Sum>c<nat CI. take_bit ab (padded_input data T L r s (int c))
                           * take_bit wb (at4 k dh dw (int c) co))"
proof -
  let ?p = "CI div 8"
  let ?X = "\<lambda>kb ib ci. int (popcount (kernel_unit (bitpack_kernel k wb) ?p ?p dh dw (int kb) (int ci) co
                           AND at5 (padded_data data ab (?p mod 8) T L D R) 0 r s (int ib) (int ci))) * 2 ^ (kb + ib)"
  let ?Y = "\<lambda>kb ib ci. int (popcount
               (pack_unit (\<lambda>j. bit (at4 k dh dw (int ci * 8 + j) co) kb)
                AND pack_unit (\<lambda>j. bit (padded_input data T L r s (int ci * 8 + j)) ib))) * 2 ^ (kb + ib)"
  have a: "(\<Sum>ci<nat (?p + ?p mod 8). ?X kb ib ci) = (\<Sum>ci<nat ?p. ?X kb ib ci)" for kb ib
  proof (cases "?p mod 8 = 0")
    case True
    then show ?thesis by simp
  next
    case False
    show ?thesis
      by (rule pad_channels_sum) (simp_all add: kernel_unit_zero[OF False] data_unit_zero[OF d False])
  qed
  have b: "(\<Sum>ci<nat ?p. ?X kb ib ci) = (\<Sum>ci<nat ?p. ?Y kb ib ci)" for kb ib
    by (rule sum.cong[OF refl]) (simp add: kernel_unit_in[OF k] data_unit_padded_input[OF d pc])
  have n: "8 * nat ?p = nat CI" using c8 by (cases "0 \<le> CI") auto
  have "(\<Sum>kb<wb. \<Sum>ib<ab. \<Sum>ci<nat (?p + ?p mod 8). ?X kb ib ci)
        = (\<Sum>kb<wb. \<Sum>ib<ab. \<Sum>ci<nat ?p. ?Y kb ib ci)"
    by (simp only: a b)
  also have "\<dots> = (\<Sum>c<8 * nat ?p. take_bit ab (padded_input data T L r s (int c))
                           * take_bit wb (at4 k dh dw (int c) co))"
    by (rule bitserial_channels[where wv = "\<lambda>c. at4 k dh dw c co"
          and av = "padded_input data T L r s"])
  finally show ?thesis unfolding n .
qed

lemma inner_unipolar:
  assumes d: "shape4 data = (N, H, W, CI)" and k: "shape4 k = (KH, KW, CI, CO)"
    and pc: "(T \<noteq> 0 \<and> R \<noteq> 0) \<or> (T = 0 \<and> L = 0 \<and> D = 0 \<and> R = 0 \<and> 0 \<le> r \<and> r < H \<and> 0 \<le> s \<and> s < W)"
    and c8: "CI mod 8 = 0"
  shows "(\<Sum>kb<wb. \<Sum>ib<ab. \<Sum>ci<nat (CI div 8 + CI div 8 mod 8).
            (int (popcount (kernel_unit (bitpack_kernel k wb) (CI div 8) (CI div 8) dh dw (int kb) (int ci) co
                           AND at5 (padded_data data ab (CI div 8 mod 8) T L D R) 0 r s (int ib) (int ci)))
             - int (popcount (NOT (kernel_unit (bitpack_kernel k wb) (CI div 8) (CI div 8) dh dw (int kb) (int ci) co)
                           AND at5 (padded_data data ab (CI div 8 mod 8) T L D R) 0 r s (int ib) (int ci))))
              * 2 ^ (kb + ib))
         = (\<Sum>c<nat CI. take_bit ab (padded_input data T L r s (int c))
                           * unipolar_weight wb (at4 k dh dw (int c) co))"
proof -
  let ?p = "CI div 8"
  let ?X = "\<lambda>kb ib ci. (int (popcount (kernel_unit (bitpack_kernel k wb) ?p ?p dh dw (int kb) (int ci) co
                           AND at5 (padded_data data ab (?p mod 8) T L D R) 0 r s (int ib) (int ci)))
             - int (popcount (NOT (kernel_unit (bitpack_kernel k wb) ?p ?p dh dw (int kb) (int ci) co)
                           AND at5 (padded_data data ab (?p mod 8) T L D R) 0 r s (int ib) (int ci)))) * 2 ^ (kb + ib)"
  let ?Y = "\<lambda>kb ib ci. (int (popcount
               (pack_unit (\<lambda>j. bit (at4 k dh dw (int ci * 8 + j) co) kb)
                AND pack_unit (\<lambda>j. bit (padded_input data T L r s (int ci * 8 + j)) ib)))
             - int (popcount
               (NOT (pack_unit (\<lambda>j. bit (at4 k dh dw (int ci * 8 + j) co) kb))
                AND pack_unit (\<lambda>j. bit (padded_input data T L r s (int ci * 8 + j)) ib)))) * 2 ^ (kb + ib)"
  have a: "(\<Sum>ci<nat (?p + ?p mod 8). ?X kb ib ci) = (\<Sum>ci<nat ?p. ?X kb ib ci)" for kb ib
  proof (cases "?p mod 8 = 0")
    case True
    then show ?thesis by simp
  next
    case False
    show ?thesis
      by (rule pad_channels_sum) (simp_all add: kernel_unit_zero[OF False] data_unit_zero[OF d False])
  qed
  have b: "(\<Sum>ci<nat ?p. ?X kb ib ci) = (\<Sum>ci<nat ?p. ?Y kb ib ci)" for kb ib
    by (rule sum.cong[OF refl]) (simp add: kernel_unit_in[OF k] data_unit_padded_input[OF d pc])
  have n: "8 * nat ?p = nat CI" using c8 by (cases "0 \<le> CI") auto
  have "(\<Sum>kb<wb. \<Sum>ib<ab. \<Sum>ci<nat (?p + ?p mod 8). ?X kb ib ci)
        = (\<Sum>kb<wb. \<Sum>ib<ab. \<Sum>ci<nat ?p. ?Y kb ib ci)"
    by (simp only: a b)
  also have "\<dots> = (\<Sum>c<8 * nat ?p. take_bit ab (padded_input data T L r s (int c))
                           * unipolar_weight wb (at4 k dh dw (int c) co))"
    by (rule bitserial_channels_unipolar[where wv = "\<lambda>c. at4 k dh dw c co"
          and av = "padded_input data T L r s"])
  finally show ?thesis unfolding n .
qed

lemma te_sum_word_of_int:
  "te_sum ext (\<lambda>dh dw kb ib ci. (word_of_int (g dh dw kb ib ci) :: word16))
     = word_of_int (te_sum ext g)"
  by (cases ext) (simp add: te_sum_def reduce_sum_word_of_int)

lemma te_sum_cong:
  assumes "\<And>dh dw kb ib ci. dh < nat KH \<Longrightarrow> dw < nat KW \<Longrightarrow> kb < nat KB \<Longrightarrow> ib < nat IB \<Longrightarrow>
             ci < nat CI \<Longrightarrow> f (int dh) (int dw) (int kb) (int ib) (int ci)
                            = g (int dh) (int dw) (int kb) (int ib) (int ci)"
  shows "te_sum (KH, KW, KB, IB, CI) f = te_sum (KH, KW, KB, IB, CI) g"
  unfolding te_sum_eq_sum by (intro sum.cong refl) (simp add: assms)

lemma entry_element:
  assumes d: "shape4 data = (1, H, W, CI)"
    and k: "shape4 k = (KH, KW, CI, CO)"
    and p: "pad_amounts padding = (T, L, D, R)"
    and s: "strides stride = (HSTR, WSTR)"
    and nz: "HSTR \<noteq> 0" "WSTR \<noteq> 0" "snd (tile_co cfg) \<noteq> 0" "snd (tile_oh cfg) \<noteq> 0"
            "snd (tile_ow cfg) \<noteq> 0"
  shows "\<exists>built conv.
     bitserial_conv2d_nhwc_no_intrinsics red cfg data (Kernel4 k) stride padding ab wb
        ''uint8'' ''int16'' unipolar = (built, Inr conv)
     \<and> (\<forall>n h w co. at4 conv n h w co =
          red (KH, KW, int wb, int ab, CI div 8 + CI div 8 mod 8)
            (\<lambda>dh dw kb ib ci.
               (if unipolar then unipolar_term else bipolar_term)
                 (kernel_unit (bitpack_kernel k wb) (CI div 8) (CI div 8) dh dw kb ci co)
                 (at5 (padded_data data ab (CI div 8 mod 8) T L D R) n (h * HSTR + dh) (w * WSTR + dw) ib ci)
                 kb ib))"
proof -
  have ke: "kernel_extents (Kernel4 k) CI = (KH, KW, CI div 8, CO)"
    using k by (simp add: kernel_extents_def)
  have shk: "shape5 (packed_kernel (Kernel4 k) wb) = (KH, KW, int wb, CI div 8, CO)"
    using k by (simp add: packed_kernel_def bitpack_kernel_def)
  have e: "CI div 8 + (if CI div 8 mod 8 \<noteq> 0 \<and> CI div 8 mod 8 \<noteq> 0 then CI div 8 mod 8 else 0)
           = CI div 8 + CI div 8 mod 8" by simp
  have pk: "packed_kernel (Kernel4 k) wb = bitpack_kernel k wb" by (simp add: packed_kernel_def)
  show ?thesis
    using entry_element_general[OF d ke shk p s nz, of red ab unipolar]
    unfolding e pk .
qed

lemma conv_value:
  assumes d: "shape4 data = (1, H, W, CI)"
    and k: "shape4 k = (KH, KW, CI, CO)"
    and p: "pad_amounts padding = (T, L, D, R)"
    and s: "strides stride = (HSTR, WSTR)"
    and st: "0 < HSTR" "0 < WSTR"
    and nz: "snd (tile_co cfg) \<noteq> 0" "snd (tile_oh cfg) \<noteq> 0" "snd (tile_ow cfg) \<noteq> 0"
    and bits: "wb + ab \<le> 32768"
    and red: "\<And>f. red (KH, KW, int wb, int ab, CI div 8 + CI div 8 mod 8) f
                 = te_sum (KH, KW, int wb, int ab, CI div 8 + CI div 8 mod 8) f"
  shows "\<exists>built conv.
     bitserial_conv2d_nhwc_no_intrinsics red cfg data (Kernel4 k) stride padding ab wb
        ''uint8'' ''int16'' unipolar = (built, Inr conv)
     \<and> (\<forall>h w co. at4 conv 0 h w co = word_of_int
          (if unipolar then unipolar_accumulation data k ab wb HSTR WSTR (T, L, D, R) h w co
           else bipolar_accumulation data k ab wb HSTR WSTR (T, L, D, R) h w co))"
proof -
  from st have st': "HSTR \<noteq> 0" "WSTR \<noteq> 0" by simp_all
  obtain built conv where r: "bitserial_conv2d_nhwc_no_intrinsics red cfg data (Kernel4 k) stride
        padding ab wb ''uint8'' ''int16'' unipolar = (built, Inr conv)"
    and e: "\<And>n h w co. at4 conv n h w co =
          red (KH, KW, int wb, int ab, CI div 8 + CI div 8 mod 8)
            (\<lambda>dh dw kb ib ci.
               (if unipolar then unipolar_term else bipolar_term)
                 (kernel_unit (bitpack_kernel k wb) (CI div 8) (CI div 8) dh dw kb ci co)
                 (at5 (padded_data data ab (CI div 8 mod 8) T L D R) n (h * HSTR + dh) (w * WSTR + dw) ib ci)
                 kb ib)"
    using entry_element[OF d k p s st' nz, of red ab wb unipolar] by blast
  have b: "0 \<le> int kb + int ib \<and> int kb + int ib < 32768" if "kb < nat (int wb)" "ib < nat (int ab)" for kb ib
    using that bits by simp
  have "at4 conv 0 h w co = word_of_int
          (if unipolar then unipolar_accumulation data k ab wb HSTR WSTR (T, L, D, R) h w co
           else bipolar_accumulation data k ab wb HSTR WSTR (T, L, D, R) h w co)" for h w co
  proof (cases unipolar)
    case True
    show ?thesis
      unfolding e red using True k
      by (simp add: unipolar_accumulation_def te_sum_word_of_int[symmetric])
         (rule te_sum_cong, simp add: unipolar_term_exact b)
  next
    case False
    show ?thesis
      unfolding e red using False k
      by (simp add: bipolar_accumulation_def te_sum_word_of_int[symmetric])
         (rule te_sum_cong, simp add: bipolar_term_exact b)
  qed
  with r show ?thesis by blast
qed

lemma accumulation_bipolar_eq:
  assumes d: "shape4 data = (1, H, W, CI)"
    and k: "shape4 k = (KH, KW, CI, CO)"
    and st: "0 < HSTR" "0 < WSTR"
    and c8: "CI mod 8 = 0"
    and pc: "(T \<noteq> 0 \<and> R \<noteq> 0) \<or> (T = 0 \<and> L = 0 \<and> D = 0 \<and> R = 0)"
    and hr: "0 \<le> h" "h < (H + (T + D) - KH) div HSTR + 1"
    and wr: "0 \<le> w" "w < (W + (L + R) - KW) div WSTR + 1"
  shows "bipolar_accumulation data k ab wb HSTR WSTR (T, L, D, R) h w co
         = (\<Sum>dh<nat KH. \<Sum>dw<nat KW. \<Sum>c<nat CI.
             take_bit ab (padded_input data T L (h * HSTR + int dh) (w * WSTR + int dw) (int c))
             * take_bit wb (at4 k (int dh) (int dw) (int c) co))"
proof -
  have pc': "(T \<noteq> 0 \<and> R \<noteq> 0) \<or> (T = 0 \<and> L = 0 \<and> D = 0 \<and> R = 0
               \<and> 0 \<le> h * HSTR + int dh \<and> h * HSTR + int dh < H
               \<and> 0 \<le> w * WSTR + int dw \<and> w * WSTR + int dw < W)"
    if "dh < nat KH" "dw < nat KW" for dh dw
  proof (cases "T \<noteq> 0 \<and> R \<noteq> 0")
    case True
    then show ?thesis by simp
  next
    case False
    with pc have z: "T = 0" "L = 0" "D = 0" "R = 0" by auto
    from receptive_row[OF st(1) hr(1) _ that(1), of H] hr(2) z
    have "0 \<le> h * HSTR + int dh \<and> h * HSTR + int dh < H" by simp
    moreover from receptive_row[OF st(2) wr(1) _ that(2), of W] wr(2) z
    have "0 \<le> w * WSTR + int dw \<and> w * WSTR + int dw < W" by simp
    ultimately show ?thesis using z by simp
  qed
  have "bipolar_accumulation data k ab wb HSTR WSTR (T, L, D, R) h w co
        = (\<Sum>dh<nat KH. \<Sum>dw<nat KW. \<Sum>kb<wb. \<Sum>ib<ab. \<Sum>ci<nat (CI div 8 + CI div 8 mod 8).
             int (popcount (kernel_unit (bitpack_kernel k wb) (CI div 8) (CI div 8) (int dh) (int dw) (int kb) (int ci) co
                  AND at5 (padded_data data ab (CI div 8 mod 8) T L D R) 0 (h * HSTR + int dh) (w * WSTR + int dw) (int ib) (int ci)))
             * 2 ^ (kb + ib))"
    using k by (simp add: bipolar_accumulation_def te_sum_eq_sum nat_add_distrib)
  also have "\<dots> = (\<Sum>dh<nat KH. \<Sum>dw<nat KW. \<Sum>c<nat CI.
             take_bit ab (padded_input data T L (h * HSTR + int dh) (w * WSTR + int dw) (int c))
             * take_bit wb (at4 k (int dh) (int dw) (int c) co))"
    by (intro sum.cong refl inner_bipolar[OF d k _ c8] pc') simp_all
  finally show ?thesis .
qed

lemma accumulation_unipolar_eq:
  assumes d: "shape4 data = (1, H, W, CI)"
    and k: "shape4 k = (KH, KW, CI, CO)"
    and st: "0 < HSTR" "0 < WSTR"
    and c8: "CI mod 8 = 0"
    and pc: "(T \<noteq> 0 \<and> R \<noteq> 0) \<or> (T = 0 \<and> L = 0 \<and> D = 0 \<and> R = 0)"
    and hr: "0 \<le> h" "h < (H + (T + D) - KH) div HSTR + 1"
    and wr: "0 \<le> w" "w < (W + (L + R) - KW) div WSTR + 1"
  shows "unipolar_accumulation data k ab wb HSTR WSTR (T, L, D, R) h w co
         = (\<Sum>dh<nat KH. \<Sum>dw<nat KW. \<Sum>c<nat CI.
             take_bit ab (padded_input data T L (h * HSTR + int dh) (w * WSTR + int dw) (int c))
             * unipolar_weight wb (at4 k (int dh) (int dw) (int c) co))"
proof -
  have pc': "(T \<noteq> 0 \<and> R \<noteq> 0) \<or> (T = 0 \<and> L = 0 \<and> D = 0 \<and> R = 0
               \<and> 0 \<le> h * HSTR + int dh \<and> h * HSTR + int dh < H
               \<and> 0 \<le> w * WSTR + int dw \<and> w * WSTR + int dw < W)"
    if "dh < nat KH" "dw < nat KW" for dh dw
  proof (cases "T \<noteq> 0 \<and> R \<noteq> 0")
    case True
    then show ?thesis by simp
  next
    case False
    with pc have z: "T = 0" "L = 0" "D = 0" "R = 0" by auto
    from receptive_row[OF st(1) hr(1) _ that(1), of H] hr(2) z
    have "0 \<le> h * HSTR + int dh \<and> h * HSTR + int dh < H" by simp
    moreover from receptive_row[OF st(2) wr(1) _ that(2), of W] wr(2) z
    have "0 \<le> w * WSTR + int dw \<and> w * WSTR + int dw < W" by simp
    ultimately show ?thesis using z by simp
  qed
  have "unipolar_accumulation data k ab wb HSTR WSTR (T, L, D, R) h w co
        = (\<Sum>dh<nat KH. \<Sum>dw<nat KW. \<Sum>kb<wb. \<Sum>ib<ab. \<Sum>ci<nat (CI div 8 + CI div 8 mod 8).
             (int (popcount (kernel_unit (bitpack_kernel k wb) (CI div 8) (CI div 8) (int dh) (int dw) (int kb) (int ci) co
                  AND at5 (padded_data data ab (CI div 8 mod 8) T L D R) 0 (h * HSTR + int dh) (w * WSTR + int dw) (int ib) (int ci)))
              - int (popcount (NOT (kernel_unit (bitpack_kernel k wb) (CI div 8) (CI div 8) (int dh) (int dw) (int kb) (int ci) co)
                  AND at5 (padded_data data ab (CI div 8 mod 8) T L D R) 0 (h * HSTR + int dh) (w * WSTR + int dw) (int ib) (int ci))))
             * 2 ^ (kb + ib))"
    using k by (simp add: unipolar_accumulation_def te_sum_eq_sum nat_add_distrib)
  also have "\<dots> = (\<Sum>dh<nat KH. \<Sum>dw<nat KW. \<Sum>c<nat CI.
             take_bit ab (padded_input data T L (h * HSTR + int dh) (w * WSTR + int dw) (int c))
             * unipolar_weight wb (at4 k (int dh) (int dw) (int c) co))"
    by (intro sum.cong refl inner_unipolar[OF d k _ c8] pc') simp_all
  finally show ?thesis .
qed

section \<open>The generated kernel and the reference convolution\<close>

lemma valid_config_tiles:
  assumes "valid_config cfg OH OW CO CIp"
  shows "snd (tile_co cfg) = 8" "2 \<le> snd (tile_oh cfg)" "2 \<le> snd (tile_ow cfg)"
    "snd (tile_ci cfg) = 8 \<or> snd (tile_ci cfg) = 16" "reorder_0 cfg \<in> set reorder_0_space"
  using assms
  by (simp_all add: valid_config_def tile_co_space_def tile_oh_space_def tile_ow_space_def
      tile_ci_space_def define_split_def)

lemma scheduled_sum_valid:
  assumes "valid_config cfg OH OW CO CIp"
  shows "scheduled_sum cfg ext f = te_sum ext f"
  using valid_config_tiles(4,5)[OF assms]
  by (intro scheduled_sum_eq_te_sum) auto

lemma padded_input_range:
  assumes d: "shape4 data = (1, H, W, CI)" and v: "values_below data ab" and c: "c < nat CI"
  shows "take_bit ab (padded_input data T L r s (int c)) = padded_input data T L r s (int c)"
proof -
  have "0 \<le> padded_input data T L r s (int c) \<and> padded_input data T L r s (int c) < 2 ^ ab"
  proof (cases "T \<le> r \<and> r < H + T \<and> L \<le> s \<and> s < W + L")
    case True
    with d v c show ?thesis
      by (simp add: padded_input_def values_below_def)
  next
    case False
    with d show ?thesis by (auto simp: padded_input_def)
  qed
  then show ?thesis by (simp add: take_bit_int_eq_self)
qed

lemma kernel_range:
  assumes k: "shape4 k = (KH, KW, CI, CO)" and v: "values_below k wb"
    and "dh < nat KH" "dw < nat KW" "c < nat CI" "0 \<le> co" "co < CO"
  shows "take_bit wb (at4 k (int dh) (int dw) (int c) co) = at4 k (int dh) (int dw) (int c) co"
proof -
  have b: "0 \<le> int dh \<and> int dh < KH \<and> 0 \<le> int dw \<and> int dw < KW \<and> 0 \<le> int c \<and> int c < CI
           \<and> 0 \<le> co \<and> co < CO"
    using assms(3-7) by linarith
  from v k have "\<forall>i0 i1 i2 i3. 0 \<le> i0 \<and> i0 < KH \<and> 0 \<le> i1 \<and> i1 < KW \<and> 0 \<le> i2 \<and> i2 < CI
      \<and> 0 \<le> i3 \<and> i3 < CO \<longrightarrow> 0 \<le> at4 k i0 i1 i2 i3 \<and> at4 k i0 i1 i2 i3 < 2 ^ wb"
    by (simp add: values_below_def)
  with b have "0 \<le> at4 k (int dh) (int dw) (int c) co
               \<and> at4 k (int dh) (int dw) (int c) co < 2 ^ wb" by blast
  then show ?thesis by (simp add: take_bit_int_eq_self)
qed

lemma reference_conv2d_sum:
  assumes "shape4 k = (KH, KW, CI, CO)"
  shows "reference_conv2d data k HSTR WSTR T L h w co
         = (\<Sum>dh<nat KH. \<Sum>dw<nat KW. \<Sum>c<nat CI.
              padded_input data T L (h * HSTR + int dh) (w * WSTR + int dw) (int c)
              * at4 k (int dh) (int dw) (int c) co)"
  using assms by (simp add: reference_conv2d_def reduce_sum_eq_sum)

lemma reference_conv2d_unipolar_sum:
  assumes "shape4 k = (KH, KW, CI, CO)"
  shows "reference_conv2d_unipolar wb data k HSTR WSTR T L h w co
         = (\<Sum>dh<nat KH. \<Sum>dw<nat KW. \<Sum>c<nat CI.
              padded_input data T L (h * HSTR + int dh) (w * WSTR + int dw) (int c)
              * unipolar_weight wb (at4 k (int dh) (int dw) (int c) co))"
  using assms by (simp add: reference_conv2d_unipolar_def reduce_sum_eq_sum)

lemma sint_word16_of_int:
  "- 32768 \<le> x \<Longrightarrow> x < 32768 \<Longrightarrow> sint (word_of_int x :: word16) = x"
  by (simp add: sint_sbintrunc' signed_take_bit_int_eq_self)

lemma kernel_value_bipolar:
  assumes d: "shape4 data = (1, H, W, CI)"
    and k: "shape4 k = (KH, KW, CI, CO)"
    and c8: "CI mod 8 = 0"
    and p: "pad_amounts padding = (T, L, D, R)"
    and pc: "(T \<noteq> 0 \<and> R \<noteq> 0) \<or> (T = 0 \<and> L = 0 \<and> D = 0 \<and> R = 0)"
    and s: "strides stride = (HSTR, WSTR)"
    and st: "0 < HSTR" "0 < WSTR"
    and b: "wb + ab \<le> 32768"
    and vd: "values_below data ab" and vk: "values_below k wb"
    and cfg: "valid_config cfg ((H + (T + D) - KH) div HSTR + 1) ((W + (L + R) - KW) div WSTR + 1)
                CO (snd (channel_pad (CI div 8)))"
    and hr: "0 \<le> h" "h < (H + (T + D) - KH) div HSTR + 1"
    and wr: "0 \<le> w" "w < (W + (L + R) - KW) div WSTR + 1"
    and cr: "0 \<le> co" "co < CO"
  shows "\<exists>built conv.
     generated_kernel cfg data (Kernel4 k) stride padding ab wb ''uint8'' ''int16'' False
       = (built, Inr conv)
     \<and> at4 conv 0 h w co
         = word_of_int (bipolar_accumulation data k ab wb HSTR WSTR (T, L, D, R) h w co)
     \<and> bipolar_accumulation data k ab wb HSTR WSTR (T, L, D, R) h w co
         = reference_conv2d data k HSTR WSTR T L h w co"
proof -
  have nz: "snd (tile_co cfg) \<noteq> 0" "snd (tile_oh cfg) \<noteq> 0" "snd (tile_ow cfg) \<noteq> 0"
    using valid_config_tiles(1,2,3)[OF cfg] by simp_all
  obtain built conv where r: "bitserial_conv2d_nhwc_no_intrinsics (scheduled_sum cfg) cfg data
        (Kernel4 k) stride padding ab wb ''uint8'' ''int16'' False = (built, Inr conv)"
    and v: "\<And>h w co. at4 conv 0 h w co = word_of_int
          (if False then unipolar_accumulation data k ab wb HSTR WSTR (T, L, D, R) h w co
           else bipolar_accumulation data k ab wb HSTR WSTR (T, L, D, R) h w co)"
    using conv_value[where red = "scheduled_sum cfg" and unipolar = False,
        OF d k p s st nz b scheduled_sum_valid[OF cfg]] by blast
  have "bipolar_accumulation data k ab wb HSTR WSTR (T, L, D, R) h w co
        = (\<Sum>dh<nat KH. \<Sum>dw<nat KW. \<Sum>c<nat CI.
             take_bit ab (padded_input data T L (h * HSTR + int dh) (w * WSTR + int dw) (int c))
             * take_bit wb (at4 k (int dh) (int dw) (int c) co))"
    by (rule accumulation_bipolar_eq[OF d k st c8 pc hr wr])
  also have "\<dots> = reference_conv2d data k HSTR WSTR T L h w co"
    unfolding reference_conv2d_sum[OF k]
    by (intro sum.cong refl) (simp add: padded_input_range[OF d vd] kernel_range[OF k vk _ _ _ cr])
  finally show ?thesis using r v by (simp add: generated_kernel_def)
qed

lemma kernel_value_unipolar:
  assumes d: "shape4 data = (1, H, W, CI)"
    and k: "shape4 k = (KH, KW, CI, CO)"
    and c8: "CI mod 8 = 0"
    and p: "pad_amounts padding = (T, L, D, R)"
    and pc: "(T \<noteq> 0 \<and> R \<noteq> 0) \<or> (T = 0 \<and> L = 0 \<and> D = 0 \<and> R = 0)"
    and s: "strides stride = (HSTR, WSTR)"
    and st: "0 < HSTR" "0 < WSTR"
    and b: "wb + ab \<le> 32768"
    and vd: "values_below data ab"
    and cfg: "valid_config cfg ((H + (T + D) - KH) div HSTR + 1) ((W + (L + R) - KW) div WSTR + 1)
                CO (snd (channel_pad (CI div 8)))"
    and hr: "0 \<le> h" "h < (H + (T + D) - KH) div HSTR + 1"
    and wr: "0 \<le> w" "w < (W + (L + R) - KW) div WSTR + 1"
  shows "\<exists>built conv.
     generated_kernel cfg data (Kernel4 k) stride padding ab wb ''uint8'' ''int16'' True
       = (built, Inr conv)
     \<and> at4 conv 0 h w co
         = word_of_int (unipolar_accumulation data k ab wb HSTR WSTR (T, L, D, R) h w co)
     \<and> unipolar_accumulation data k ab wb HSTR WSTR (T, L, D, R) h w co
         = reference_conv2d_unipolar wb data k HSTR WSTR T L h w co"
proof -
  have nz: "snd (tile_co cfg) \<noteq> 0" "snd (tile_oh cfg) \<noteq> 0" "snd (tile_ow cfg) \<noteq> 0"
    using valid_config_tiles(1,2,3)[OF cfg] by simp_all
  obtain built conv where r: "bitserial_conv2d_nhwc_no_intrinsics (scheduled_sum cfg) cfg data
        (Kernel4 k) stride padding ab wb ''uint8'' ''int16'' True = (built, Inr conv)"
    and v: "\<And>h w co. at4 conv 0 h w co = word_of_int
          (if True then unipolar_accumulation data k ab wb HSTR WSTR (T, L, D, R) h w co
           else bipolar_accumulation data k ab wb HSTR WSTR (T, L, D, R) h w co)"
    using conv_value[where red = "scheduled_sum cfg" and unipolar = True,
        OF d k p s st nz b scheduled_sum_valid[OF cfg]] by blast
  have "unipolar_accumulation data k ab wb HSTR WSTR (T, L, D, R) h w co
        = (\<Sum>dh<nat KH. \<Sum>dw<nat KW. \<Sum>c<nat CI.
             take_bit ab (padded_input data T L (h * HSTR + int dh) (w * WSTR + int dw) (int c))
             * unipolar_weight wb (at4 k (int dh) (int dw) (int c) co))"
    by (rule accumulation_unipolar_eq[OF d k st c8 pc hr wr])
  also have "\<dots> = reference_conv2d_unipolar wb data k HSTR WSTR T L h w co"
    unfolding reference_conv2d_unipolar_sum[OF k]
    by (intro sum.cong refl) (simp add: padded_input_range[OF d vd])
  finally show ?thesis using r v by (simp add: generated_kernel_def)
qed

lemma instance_valid:
  "valid_config instance_config 2 2 8 32"
  by (simp add: valid_config_def instance_config_def tile_co_space_def tile_oh_space_def
      tile_ow_space_def tile_ci_space_def define_split_def mem_split_candidates
      reorder_0_space_eq)

lemma instance_facts:
  "shape4 saturated_data = (1, 2, 2, 256)" "shape4 unit_weights = (1, 1, 256, 8)"
  "pad_amounts (PadInt 0) = (0, 0, 0, 0)" "strides (StrideInt 1) = (1, 1)"
  "values_below saturated_data 8" "values_below unit_weights 1"
  "snd (channel_pad (256 div 8)) = 32"
  by (simp_all add: saturated_data_def unit_weights_def pad_amounts_def get_pad_tuple_def
      strides_def values_below_def channel_pad_def)

lemma instance_reference:
  "reference_conv2d saturated_data unit_weights 1 1 0 0 0 0 0 = 65280"
  unfolding reference_conv2d_sum[OF instance_facts(2)]
  by (simp add: padded_input_def saturated_data_def unit_weights_def)

lemma instance_reference_unipolar:
  "reference_conv2d_unipolar 1 saturated_data unit_weights 1 1 0 0 0 0 0 = 65280"
  unfolding reference_conv2d_unipolar_sum[OF instance_facts(2)]
  by (simp add: padded_input_def saturated_data_def unit_weights_def unipolar_weight_def)

lemma kernel_returns:
  assumes d: "shape4 data = (1, H, W, CI)"
    and k: "shape4 k = (KH, KW, CI, CO)"
    and p: "pad_amounts padding = (T, L, D, R)"
    and s: "strides stride = (HSTR, WSTR)"
    and st: "0 < HSTR" "0 < WSTR"
    and cfg: "valid_config cfg OH OW CO' CIp"
  shows "\<exists>built conv.
     generated_kernel cfg data (Kernel4 k) stride padding ab wb ''uint8'' ''int16'' unipolar
       = (built, Inr conv)
     \<and> shape4 conv = (1, (H + (T + D) - KH) div HSTR + 1, (W + (L + R) - KW) div WSTR + 1, CO)"
proof -
  have nz: "snd (tile_co cfg) \<noteq> 0" "snd (tile_oh cfg) \<noteq> 0" "snd (tile_ow cfg) \<noteq> 0"
    using valid_config_tiles(1,2,3)[OF cfg] by simp_all
  from st have st': "HSTR \<noteq> 0" "WSTR \<noteq> 0" by simp_all
  have f: "fst (shape4 data) = 1" using d by simp
  obtain built conv where r: "bitserial_conv2d_nhwc_no_intrinsics (scheduled_sum cfg) cfg data
        (Kernel4 k) stride padding ab wb ''uint8'' ''int16'' unipolar = (built, Inr conv)"
    using entry_returns[OF f refl refl s st' nz] by blast
  have ke: "kernel_extents (Kernel4 k) CI = (KH, KW, CI div 8, CO)"
    using k by (simp add: kernel_extents_def)
  have "snd (bitserial_conv2d_nhwc_no_intrinsics (scheduled_sum cfg) cfg data
        (Kernel4 k) stride padding ab wb ''uint8'' ''int16'' unipolar) = Inr conv"
    using r by simp
  from entry_shape[OF this d ke p s] r show ?thesis
    by (simp add: generated_kernel_def)
qed

text \<open>
  C1, as stated, fails: the output element type is \<open>int16\<close>, and the integer convolution need
  not fit. With the saturated instance (activations 255 over 256 channels, weights 1, a 1 x 1
  kernel, stride 1, no padding, 8 activation bits and 1 weight bit) the convolution of the
  unpacked values is \<open>256 * 255 = 65280\<close> at every output element, and the bipolar kernel
  returns \<open>-256\<close>. The activations lie in \<open>[0, 2^8)\<close>, the weights in \<open>[0, 2^1)\<close>, and the
  configuration is one of the space of the instance (output extents 2 x 2, 8 output channels,
  32 packed input channels).
\<close>

theorem bipolar_int16_overflow:
  "output_value (generated_kernel instance_config saturated_data (Kernel4 unit_weights)
       (StrideInt 1) (PadInt 0) 8 1 ''uint8'' ''int16'' False) 0 0 0 = Some (- 256)
   \<and> reference_conv2d saturated_data unit_weights 1 1 0 0 0 0 0 = 65280
   \<and> values_below saturated_data 8 \<and> values_below unit_weights 1
   \<and> valid_config instance_config 2 2 8 32"
proof -
  have v: "valid_config instance_config ((2 + (0 + 0) - 1) div 1 + 1) ((2 + (0 + 0) - 1) div 1 + 1)
             8 (snd (channel_pad (256 div 8)))"
    using instance_valid by (simp add: channel_pad_def)
  obtain built conv where
    r: "generated_kernel instance_config saturated_data (Kernel4 unit_weights)
          (StrideInt 1) (PadInt 0) 8 1 ''uint8'' ''int16'' False = (built, Inr conv)"
    and e: "at4 conv 0 0 0 0 = word_of_int
              (bipolar_accumulation saturated_data unit_weights 8 1 1 1 (0, 0, 0, 0) 0 0 0)"
    and a: "bipolar_accumulation saturated_data unit_weights 8 1 1 1 (0, 0, 0, 0) 0 0 0
              = reference_conv2d saturated_data unit_weights 1 1 0 0 0 0 0"
    using kernel_value_bipolar[where h = 0 and w = 0 and co = 0,
        OF instance_facts(1,2) _ instance_facts(3) _ instance_facts(4) _ _ _ instance_facts(5,6) v]
    by auto
  show ?thesis
    using r e a instance_reference instance_facts(5,6) instance_valid
    by (simp add: output_value_def)
qed

text \<open>
  C1, amended. In bipolar mode, for an activation tensor of batch size 1 with values in
  \<open>[0, 2^activation_bits)\<close>, an unpacked weight tensor with values in \<open>[0, 2^weight_bits)\<close>,
  an input-channel count that is a multiple of 8, positive strides, bit widths whose sum is at
  most 32768, a padding that is zero on all four sides or non-zero at the top and at the right,
  and every valid configuration, the generated kernel returns a tensor of the output shape, and
  each of its elements is the standard integer convolution of the unpacked values brought into \<open>int16\<close>: equal to it
  modulo \<open>2^16\<close>, and equal to it as an integer whenever the convolution lies in
  \<open>[-32768, 32768)\<close>. The convolution is the sum, over kernel height, kernel width, weight-bit
  index, activation-bit index and packed input channel, of
  \<open>popcount(weights & activations) << (weight_bit_index + activation_bit_index)\<close>.
\<close>

theorem bipolar_convolution_int16:
  assumes "shape4 data = (1, H, W, CI)"
    and "shape4 k = (KH, KW, CI, CO)"
    and "CI mod 8 = 0"
    and "pad_amounts padding = (T, L, D, R)"
    and "(T \<noteq> 0 \<and> R \<noteq> 0) \<or> (T = 0 \<and> L = 0 \<and> D = 0 \<and> R = 0)"
    and "strides stride = (HSTR, WSTR)"
    and "0 < HSTR" "0 < WSTR"
    and "weight_bits + activation_bits \<le> 32768"
    and "values_below data activation_bits"
    and "values_below k weight_bits"
    and "OH = (H + (T + D) - KH) div HSTR + 1"
    and "OW = (W + (L + R) - KW) div WSTR + 1"
    and "valid_config cfg OH OW CO (snd (channel_pad (CI div 8)))"
  shows "\<exists>built conv.
     generated_kernel cfg data (Kernel4 k) stride padding activation_bits weight_bits
        ''uint8'' ''int16'' False = (built, Inr conv)
     \<and> shape4 conv = (1, OH, OW, CO)
     \<and> (\<forall>h w co. 0 \<le> h \<and> h < OH \<and> 0 \<le> w \<and> w < OW \<and> 0 \<le> co \<and> co < CO \<longrightarrow>
          at4 conv 0 h w co = word_of_int (reference_conv2d data k HSTR WSTR T L h w co)
          \<and> reference_conv2d data k HSTR WSTR T L h w co
              = bipolar_accumulation data k activation_bits weight_bits HSTR WSTR (T, L, D, R) h w co
          \<and> (- 32768 \<le> reference_conv2d data k HSTR WSTR T L h w co
               \<and> reference_conv2d data k HSTR WSTR T L h w co < 32768 \<longrightarrow>
             sint (at4 conv 0 h w co) = reference_conv2d data k HSTR WSTR T L h w co))"
proof -
  note v = assms(14)[unfolded assms(12,13)]
  obtain built conv where
    r: "generated_kernel cfg data (Kernel4 k) stride padding activation_bits weight_bits
          ''uint8'' ''int16'' False = (built, Inr conv)"
    and sh: "shape4 conv = (1, OH, OW, CO)"
    using kernel_returns[OF assms(1,2,4,6,7,8) v] assms(12,13) by blast
  have "at4 conv 0 h w co = word_of_int (reference_conv2d data k HSTR WSTR T L h w co)
        \<and> reference_conv2d data k HSTR WSTR T L h w co
            = bipolar_accumulation data k activation_bits weight_bits HSTR WSTR (T, L, D, R) h w co
        \<and> (- 32768 \<le> reference_conv2d data k HSTR WSTR T L h w co
             \<and> reference_conv2d data k HSTR WSTR T L h w co < 32768 \<longrightarrow>
           sint (at4 conv 0 h w co) = reference_conv2d data k HSTR WSTR T L h w co)"
    if "0 \<le> h \<and> h < OH \<and> 0 \<le> w \<and> w < OW \<and> 0 \<le> co \<and> co < CO" for h w co
  proof -
    from that have hr: "0 \<le> h" "h < (H + (T + D) - KH) div HSTR + 1"
      and wr: "0 \<le> w" "w < (W + (L + R) - KW) div WSTR + 1" and cr: "0 \<le> co" "co < CO"
      using assms(12,13) by simp_all
    from kernel_value_bipolar[OF assms(1-11) v hr wr cr] r
    have e: "at4 conv 0 h w co = word_of_int
               (bipolar_accumulation data k activation_bits weight_bits HSTR WSTR (T, L, D, R) h w co)"
      and a: "bipolar_accumulation data k activation_bits weight_bits HSTR WSTR (T, L, D, R) h w co
               = reference_conv2d data k HSTR WSTR T L h w co"
      by auto
    show ?thesis using e a by (simp add: sint_word16_of_int)
  qed
  with r sh show ?thesis by blast
qed

theorem bipolar_convolution_int16_witness:
  "\<exists>built conv.
     generated_kernel
       \<lparr>tile_co = (1, 8), tile_oh = (1, 2), tile_ow = (1, 2), tile_ci = (1, 8),
        reorder_0 = [0, 1, 2, 3, 4, 5, 7, 6, 8, 9, 10, 11, 12]\<rparr>
       \<lparr>shape4 = (1, 2, 2, 64), at4 = (\<lambda>n h w c. 1)\<rparr>
       (Kernel4 \<lparr>shape4 = (3, 3, 64, 8), at4 = (\<lambda>dh dw c co. 1)\<rparr>)
       (StrideInt 1) (PadInt 1) 1 1 ''uint8'' ''int16'' False = (built, Inr conv)
     \<and> shape4 conv = (1, 2, 2, 8)
     \<and> sint (at4 conv 0 1 1 7) = 256"
proof -
  let ?cfg = "\<lparr>tile_co = (1, 8), tile_oh = (1, 2), tile_ow = (1, 2), tile_ci = (1, 8),
        reorder_0 = [0, 1, 2, 3, 4, 5, 7, 6, 8, 9, 10, 11, 12]\<rparr>"
  let ?d = "\<lparr>shape4 = (1, 2, 2, 64), at4 = (\<lambda>n h w c. (1::int))\<rparr>"
  let ?k = "\<lparr>shape4 = (3, 3, 64, 8), at4 = (\<lambda>dh dw c co. (1::int))\<rparr>"
  have d: "shape4 ?d = (1, 2, 2, 64)" and k: "shape4 ?k = (3, 3, 64, 8)" by simp_all
  have p: "pad_amounts (PadInt 1) = (1, 1, 1, 1)" by (simp add: pad_amounts_def get_pad_tuple_def)
  have s: "strides (StrideInt 1) = (1, 1)" by (simp add: strides_def)
  have vd: "values_below ?d 1" and vk: "values_below ?k 1" by (simp_all add: values_below_def)
  have v: "valid_config ?cfg 2 2 8 (snd (channel_pad (64 div 8)))"
    by (simp add: valid_config_def tile_co_space_def tile_oh_space_def tile_ow_space_def
        tile_ci_space_def define_split_def mem_split_candidates reorder_0_space_eq channel_pad_def)
  have ref: "reference_conv2d ?d ?k 1 1 1 1 1 1 7 = 256"
    unfolding reference_conv2d_sum[OF k]
    by (simp add: padded_input_def eval_nat_numeral)
  have c8: "(64::int) mod 8 = 0" and st: "(0::int) < 1" and b: "(1::nat) + 1 \<le> 32768"
    and pc: "((1::int) \<noteq> 0 \<and> (1::int) \<noteq> 0) \<or> ((1::int) = 0 \<and> (1::int) = 0 \<and> (1::int) = 0 \<and> (1::int) = 0)"
    and oh: "(2::int) = (2 + (1 + 1) - 3) div 1 + 1"
    by simp_all
  note t = bipolar_convolution_int16[OF d k c8 p pc s st st b vd vk oh oh v]
  from t obtain built conv where r: "generated_kernel ?cfg ?d (Kernel4 ?k)
       (StrideInt 1) (PadInt 1) 1 1 ''uint8'' ''int16'' False = (built, Inr conv)"
    and sh: "shape4 conv = (1, 2, 2, 8)"
    and e: "\<forall>h w co. 0 \<le> h \<and> h < 2 \<and> 0 \<le> w \<and> w < 2 \<and> 0 \<le> co \<and> co < 8 \<longrightarrow>
          at4 conv 0 h w co = word_of_int (reference_conv2d ?d ?k 1 1 1 1 h w co)
          \<and> reference_conv2d ?d ?k 1 1 1 1 h w co
              = bipolar_accumulation ?d ?k 1 1 1 1 (1, 1, 1, 1) h w co
          \<and> (- 32768 \<le> reference_conv2d ?d ?k 1 1 1 1 h w co
               \<and> reference_conv2d ?d ?k 1 1 1 1 h w co < 32768 \<longrightarrow>
             sint (at4 conv 0 h w co) = reference_conv2d ?d ?k 1 1 1 1 h w co)"
    by blast
  from e[rule_format, of 1 1 7] ref have "sint (at4 conv 0 1 1 7) = 256" by simp
  with r sh show ?thesis by blast
qed

text \<open>
  C2, as stated, fails for the same reason: with the saturated instance every weight bit is 1
  and stands for \<open>+1\<close>, the signed reference convolution is \<open>256 * 255 = 65280\<close>, and the
  unipolar kernel returns \<open>-256\<close>. The activations lie in \<open>[0, 2^8)\<close> and the configuration
  is one of the space of the instance.
\<close>

theorem unipolar_int16_overflow:
  "output_value (generated_kernel instance_config saturated_data (Kernel4 unit_weights)
       (StrideInt 1) (PadInt 0) 8 1 ''uint8'' ''int16'' True) 0 0 0 = Some (- 256)
   \<and> reference_conv2d_unipolar 1 saturated_data unit_weights 1 1 0 0 0 0 0 = 65280
   \<and> values_below saturated_data 8 \<and> valid_config instance_config 2 2 8 32"
proof -
  have v: "valid_config instance_config ((2 + (0 + 0) - 1) div 1 + 1) ((2 + (0 + 0) - 1) div 1 + 1)
             8 (snd (channel_pad (256 div 8)))"
    using instance_valid by (simp add: channel_pad_def)
  obtain built conv where
    r: "generated_kernel instance_config saturated_data (Kernel4 unit_weights)
          (StrideInt 1) (PadInt 0) 8 1 ''uint8'' ''int16'' True = (built, Inr conv)"
    and e: "at4 conv 0 0 0 0 = word_of_int
              (unipolar_accumulation saturated_data unit_weights 8 1 1 1 (0, 0, 0, 0) 0 0 0)"
    and a: "unipolar_accumulation saturated_data unit_weights 8 1 1 1 (0, 0, 0, 0) 0 0 0
              = reference_conv2d_unipolar 1 saturated_data unit_weights 1 1 0 0 0 0 0"
    using kernel_value_unipolar[where wb = 1 and h = 0 and w = 0 and co = 0,
        OF instance_facts(1,2) _ instance_facts(3) _ instance_facts(4) _ _ _ instance_facts(5) v]
    by auto
  show ?thesis
    using r e a instance_reference_unipolar instance_facts(5) instance_valid
    by (simp add: output_value_def)
qed

text \<open>
  C2, amended. In unipolar mode (a clear weight bit stands for \<open>-1\<close>, a set one for \<open>+1\<close>),
  for an activation tensor of batch size 1 with values in \<open>[0, 2^activation_bits)\<close>, any
  unpacked weight tensor, an input-channel count that is a multiple of 8, positive strides,
  bit widths whose sum is at most 32768, a padding that is zero on all four sides or non-zero
  at the top and at the right, and every valid configuration, the generated kernel returns a tensor of the output shape, and each of
  its elements is the signed reference convolution brought into \<open>int16\<close>: equal to it modulo
  \<open>2^16\<close>, and equal to it as an integer whenever the reference lies in \<open>[-32768, 32768)\<close>.
  The reference is the sum, over kernel height, kernel width, weight-bit index, activation-bit
  index and packed input channel, of
  \<open>(popcount(weights & activations) - popcount(~weights & activations))
     << (weight_bit_index + activation_bit_index)\<close>.
\<close>

theorem unipolar_convolution_int16:
  assumes "shape4 data = (1, H, W, CI)"
    and "shape4 k = (KH, KW, CI, CO)"
    and "CI mod 8 = 0"
    and "pad_amounts padding = (T, L, D, R)"
    and "(T \<noteq> 0 \<and> R \<noteq> 0) \<or> (T = 0 \<and> L = 0 \<and> D = 0 \<and> R = 0)"
    and "strides stride = (HSTR, WSTR)"
    and "0 < HSTR" "0 < WSTR"
    and "weight_bits + activation_bits \<le> 32768"
    and "values_below data activation_bits"
    and "OH = (H + (T + D) - KH) div HSTR + 1"
    and "OW = (W + (L + R) - KW) div WSTR + 1"
    and "valid_config cfg OH OW CO (snd (channel_pad (CI div 8)))"
  shows "\<exists>built conv.
     generated_kernel cfg data (Kernel4 k) stride padding activation_bits weight_bits
        ''uint8'' ''int16'' True = (built, Inr conv)
     \<and> shape4 conv = (1, OH, OW, CO)
     \<and> (\<forall>h w co. 0 \<le> h \<and> h < OH \<and> 0 \<le> w \<and> w < OW \<longrightarrow>
          at4 conv 0 h w co
            = word_of_int (reference_conv2d_unipolar weight_bits data k HSTR WSTR T L h w co)
          \<and> reference_conv2d_unipolar weight_bits data k HSTR WSTR T L h w co
              = unipolar_accumulation data k activation_bits weight_bits HSTR WSTR (T, L, D, R) h w co
          \<and> (- 32768 \<le> reference_conv2d_unipolar weight_bits data k HSTR WSTR T L h w co
               \<and> reference_conv2d_unipolar weight_bits data k HSTR WSTR T L h w co < 32768 \<longrightarrow>
             sint (at4 conv 0 h w co)
               = reference_conv2d_unipolar weight_bits data k HSTR WSTR T L h w co))"
proof -
  note v = assms(13)[unfolded assms(11,12)]
  obtain built conv where
    r: "generated_kernel cfg data (Kernel4 k) stride padding activation_bits weight_bits
          ''uint8'' ''int16'' True = (built, Inr conv)"
    and sh: "shape4 conv = (1, OH, OW, CO)"
    using kernel_returns[OF assms(1,2,4,6,7,8) v] assms(11,12) by blast
  have "at4 conv 0 h w co
          = word_of_int (reference_conv2d_unipolar weight_bits data k HSTR WSTR T L h w co)
        \<and> reference_conv2d_unipolar weight_bits data k HSTR WSTR T L h w co
            = unipolar_accumulation data k activation_bits weight_bits HSTR WSTR (T, L, D, R) h w co
        \<and> (- 32768 \<le> reference_conv2d_unipolar weight_bits data k HSTR WSTR T L h w co
             \<and> reference_conv2d_unipolar weight_bits data k HSTR WSTR T L h w co < 32768 \<longrightarrow>
           sint (at4 conv 0 h w co)
             = reference_conv2d_unipolar weight_bits data k HSTR WSTR T L h w co)"
    if "0 \<le> h \<and> h < OH \<and> 0 \<le> w \<and> w < OW" for h w co
  proof -
    from that have hr: "0 \<le> h" "h < (H + (T + D) - KH) div HSTR + 1"
      and wr: "0 \<le> w" "w < (W + (L + R) - KW) div WSTR + 1"
      using assms(11,12) by simp_all
    from kernel_value_unipolar[OF assms(1-10) v hr wr, of co] r
    have e: "at4 conv 0 h w co = word_of_int
               (unipolar_accumulation data k activation_bits weight_bits HSTR WSTR (T, L, D, R) h w co)"
      and a: "unipolar_accumulation data k activation_bits weight_bits HSTR WSTR (T, L, D, R) h w co
               = reference_conv2d_unipolar weight_bits data k HSTR WSTR T L h w co"
      by auto
    show ?thesis using e a by (simp add: sint_word16_of_int)
  qed
  with r sh show ?thesis by blast
qed

theorem unipolar_convolution_int16_witness:
  "\<exists>built conv.
     generated_kernel
       \<lparr>tile_co = (1, 8), tile_oh = (1, 2), tile_ow = (1, 2), tile_ci = (1, 8),
        reorder_0 = [0, 1, 2, 3, 4, 5, 7, 6, 8, 9, 10, 11, 12]\<rparr>
       \<lparr>shape4 = (1, 2, 2, 64), at4 = (\<lambda>n h w c. 1)\<rparr>
       (Kernel4 \<lparr>shape4 = (1, 1, 64, 8), at4 = (\<lambda>dh dw c co. 0)\<rparr>)
       (StrideInt 1) (PadInt 0) 1 1 ''uint8'' ''int16'' True = (built, Inr conv)
     \<and> shape4 conv = (1, 2, 2, 8)
     \<and> sint (at4 conv 0 1 1 7) = - 64"
proof -
  let ?cfg = "\<lparr>tile_co = (1, 8), tile_oh = (1, 2), tile_ow = (1, 2), tile_ci = (1, 8),
        reorder_0 = [0, 1, 2, 3, 4, 5, 7, 6, 8, 9, 10, 11, 12]\<rparr>"
  let ?d = "\<lparr>shape4 = (1, 2, 2, 64), at4 = (\<lambda>n h w c. (1::int))\<rparr>"
  let ?k = "\<lparr>shape4 = (1, 1, 64, 8), at4 = (\<lambda>dh dw c co. (0::int))\<rparr>"
  have d: "shape4 ?d = (1, 2, 2, 64)" and k: "shape4 ?k = (1, 1, 64, 8)" by simp_all
  have p: "pad_amounts (PadInt 0) = (0, 0, 0, 0)" by (simp add: pad_amounts_def get_pad_tuple_def)
  have s: "strides (StrideInt 1) = (1, 1)" by (simp add: strides_def)
  have vd: "values_below ?d 1" by (simp add: values_below_def)
  have v: "valid_config ?cfg 2 2 8 (snd (channel_pad (64 div 8)))"
    by (simp add: valid_config_def tile_co_space_def tile_oh_space_def tile_ow_space_def
        tile_ci_space_def define_split_def mem_split_candidates reorder_0_space_eq channel_pad_def)
  have ref: "reference_conv2d_unipolar 1 ?d ?k 1 1 0 0 1 1 7 = - 64"
    unfolding reference_conv2d_unipolar_sum[OF k]
    by (simp add: padded_input_def unipolar_weight_def)
  have c8: "(64::int) mod 8 = 0" and st: "(0::int) < 1" and b: "(1::nat) + 1 \<le> 32768"
    and pc: "((0::int) \<noteq> 0 \<and> (0::int) \<noteq> 0) \<or> ((0::int) = 0 \<and> (0::int) = 0 \<and> (0::int) = 0 \<and> (0::int) = 0)"
    and oh: "(2::int) = (2 + (0 + 0) - 1) div 1 + 1"
    by simp_all
  note t = unipolar_convolution_int16[where CO = 8, OF d k c8 p pc s st st b vd oh oh v]
  from t obtain built conv where r: "generated_kernel ?cfg ?d (Kernel4 ?k)
       (StrideInt 1) (PadInt 0) 1 1 ''uint8'' ''int16'' True = (built, Inr conv)"
    and sh: "shape4 conv = (1, 2, 2, 8)"
    and e: "\<forall>h w co. 0 \<le> h \<and> h < 2 \<and> 0 \<le> w \<and> w < 2 \<longrightarrow>
          at4 conv 0 h w co = word_of_int (reference_conv2d_unipolar 1 ?d ?k 1 1 0 0 h w co)
          \<and> reference_conv2d_unipolar 1 ?d ?k 1 1 0 0 h w co
              = unipolar_accumulation ?d ?k 1 1 1 1 (0, 0, 0, 0) h w co
          \<and> (- 32768 \<le> reference_conv2d_unipolar 1 ?d ?k 1 1 0 0 h w co
               \<and> reference_conv2d_unipolar 1 ?d ?k 1 1 0 0 h w co < 32768 \<longrightarrow>
             sint (at4 conv 0 h w co) = reference_conv2d_unipolar 1 ?d ?k 1 1 0 0 h w co)"
    by blast
  from e[rule_format, of 1 1 7] ref have "sint (at4 conv 0 1 1 7) = - 64" by simp
  with r sh show ?thesis by blast
qed


section \<open>Configuration invariance\<close>

text \<open>
  C7. For fixed activations, weights, stride, padding, bit widths, element types and polarity,
  the generated kernel gives the same result at any two valid configurations: the same output
  tensor, element by element, or the same failure. The output-height, output-width and
  reduction tile widths and the loop-order candidate of a valid configuration do not enter
  the result. A call with batch size 1, the two fixed element types and non-zero strides does
  return a tensor.
\<close>

theorem configuration_invariance:
  assumes v1: "valid_config cfg1 OH OW CO CI_packed"
    and v2: "valid_config cfg2 OH OW CO CI_packed"
  shows "snd (generated_kernel cfg1 data kern stride padding activation_bits weight_bits
                pack_dtype out_dtype unipolar)
         = snd (generated_kernel cfg2 data kern stride padding activation_bits weight_bits
                pack_dtype out_dtype unipolar)
       \<and> (fst (shape4 data) = 1 \<and> pack_dtype = ''uint8'' \<and> out_dtype = ''int16''
            \<and> fst (strides stride) \<noteq> 0 \<and> snd (strides stride) \<noteq> 0 \<longrightarrow>
          (\<exists>conv. snd (generated_kernel cfg1 data kern stride padding activation_bits weight_bits
                pack_dtype out_dtype unipolar) = Inr conv))"
proof -
  obtain N H W CI where d: "shape4 data = (N, H, W, CI)" by (cases "shape4 data") auto
  obtain KH KW CIp CO' where ke: "kernel_extents kern CI = (KH, KW, CIp, CO')"
    by (cases "kernel_extents kern CI") auto
  obtain KH' KW' KB CIk CO'' where
    shk: "shape5 (packed_kernel kern weight_bits) = (KH', KW', KB, CIk, CO'')"
    by (cases "shape5 (packed_kernel kern weight_bits)") auto
  obtain T L D R where p: "pad_amounts padding = (T, L, D, R)"
    by (cases "pad_amounts padding") auto
  obtain HSTR WSTR where s: "strides stride = (HSTR, WSTR)" by (cases "strides stride") auto
  have nz1: "snd (tile_co cfg1) \<noteq> 0" "snd (tile_oh cfg1) \<noteq> 0" "snd (tile_ow cfg1) \<noteq> 0"
    using valid_config_tiles(1,2,3)[OF v1] by simp_all
  have nz2: "snd (tile_co cfg2) \<noteq> 0" "snd (tile_oh cfg2) \<noteq> 0" "snd (tile_ow cfg2) \<noteq> 0"
    using valid_config_tiles(1,2,3)[OF v2] by simp_all
  let ?r1 = "generated_kernel cfg1 data kern stride padding activation_bits weight_bits
                pack_dtype out_dtype unipolar"
  let ?r2 = "generated_kernel cfg2 data kern stride padding activation_bits weight_bits
                pack_dtype out_dtype unipolar"
  consider (assertion) "fst (shape4 data) \<noteq> 1 \<or> pack_dtype \<noteq> ''uint8'' \<or> out_dtype \<noteq> ''int16''"
    | (zero) "fst (shape4 data) = 1" "pack_dtype = ''uint8''" "out_dtype = ''int16''"
        "HSTR = 0 \<or> WSTR = 0"
    | (run) "fst (shape4 data) = 1" "pack_dtype = ''uint8''" "out_dtype = ''int16''"
        "HSTR \<noteq> 0" "WSTR \<noteq> 0"
    by blast
  then show ?thesis
  proof cases
    case assertion
    then have "?r1 = ?r2"
      by (auto simp: generated_kernel_def bitserial_conv2d_nhwc_no_intrinsics_def)
    with assertion show ?thesis by auto
  next
    case zero
    then have "snd ?r1 = Inl ZeroDivisionError" "snd ?r2 = Inl ZeroDivisionError"
      using d ke p s
      by (simp_all add: generated_kernel_def bitserial_conv2d_nhwc_no_intrinsics_def)
    with zero s show ?thesis by auto
  next
    case run
    from run(1) d have d1: "shape4 data = (1, H, W, CI)" by simp
    obtain b1 c1 where r1: "bitserial_conv2d_nhwc_no_intrinsics (scheduled_sum cfg1) cfg1 data kern
          stride padding activation_bits weight_bits ''uint8'' ''int16'' unipolar = (b1, Inr c1)"
      and e1: "\<And>n h w co. at4 c1 n h w co =
          scheduled_sum cfg1 (KH', KW', KB, int activation_bits,
              CIk + (if CIk mod 8 \<noteq> 0 \<and> CIp mod 8 \<noteq> 0 then CIp mod 8 else 0))
            (\<lambda>dh dw kb ib ci.
               (if unipolar then unipolar_term else bipolar_term)
                 (kernel_unit (packed_kernel kern weight_bits) CIk CIp dh dw kb ci co)
                 (at5 (padded_data data activation_bits (CIp mod 8) T L D R) n
                    (h * HSTR + dh) (w * WSTR + dw) ib ci)
                 kb ib)"
      using entry_element_general[OF d1 ke shk p s run(4,5) nz1,
          of "scheduled_sum cfg1" activation_bits unipolar] by blast
    obtain b2 c2 where r2: "bitserial_conv2d_nhwc_no_intrinsics (scheduled_sum cfg2) cfg2 data kern
          stride padding activation_bits weight_bits ''uint8'' ''int16'' unipolar = (b2, Inr c2)"
      and e2: "\<And>n h w co. at4 c2 n h w co =
          scheduled_sum cfg2 (KH', KW', KB, int activation_bits,
              CIk + (if CIk mod 8 \<noteq> 0 \<and> CIp mod 8 \<noteq> 0 then CIp mod 8 else 0))
            (\<lambda>dh dw kb ib ci.
               (if unipolar then unipolar_term else bipolar_term)
                 (kernel_unit (packed_kernel kern weight_bits) CIk CIp dh dw kb ci co)
                 (at5 (padded_data data activation_bits (CIp mod 8) T L D R) n
                    (h * HSTR + dh) (w * WSTR + dw) ib ci)
                 kb ib)"
      using entry_element_general[OF d1 ke shk p s run(4,5) nz2,
          of "scheduled_sum cfg2" activation_bits unipolar] by blast
    have s1: "shape4 c1 = (1, (H + (T + D) - KH) div HSTR + 1, (W + (L + R) - KW) div WSTR + 1, CO')"
      using entry_shape[OF _ d1 ke p s, of "scheduled_sum cfg1" cfg1 activation_bits weight_bits
          "''uint8''" "''int16''" unipolar c1] r1 by simp
    have s2: "shape4 c2 = (1, (H + (T + D) - KH) div HSTR + 1, (W + (L + R) - KW) div WSTR + 1, CO')"
      using entry_shape[OF _ d1 ke p s, of "scheduled_sum cfg2" cfg2 activation_bits weight_bits
          "''uint8''" "''int16''" unipolar c2] r2 by simp
    have "at4 c1 = at4 c2"
      by (intro ext) (simp only: e1 e2 scheduled_sum_valid[OF v1] scheduled_sum_valid[OF v2])
    with s1 s2 have "c1 = c2" by (intro tensor4.equality) simp_all
    with r1 r2 run show ?thesis by (simp add: generated_kernel_def)
  qed
qed

theorem configuration_invariance_witness:
  "snd (generated_kernel
          \<lparr>tile_co = (1, 8), tile_oh = (2, 2), tile_ow = (2, 2), tile_ci = (2, 8),
           reorder_0 = [0, 1, 2, 3, 4, 5, 6, 7, 8, 9, 10, 11, 12]\<rparr>
          \<lparr>shape4 = (1, 4, 4, 128), at4 = (\<lambda>n h w c. (h + w + c) mod 4)\<rparr>
          (Kernel4 \<lparr>shape4 = (1, 1, 128, 8), at4 = (\<lambda>dh dw c co. (c + co) mod 2)\<rparr>)
          (StrideInt 1) (PadInt 0) 2 1 ''uint8'' ''int16'' False)
   = snd (generated_kernel
          \<lparr>tile_co = (1, 8), tile_oh = (1, 4), tile_ow = (1, 4), tile_ci = (1, 16),
           reorder_0 = [0, 1, 2, 3, 4, 5, 7, 6, 8, 9, 10, 11, 12]\<rparr>
          \<lparr>shape4 = (1, 4, 4, 128), at4 = (\<lambda>n h w c. (h + w + c) mod 4)\<rparr>
          (Kernel4 \<lparr>shape4 = (1, 1, 128, 8), at4 = (\<lambda>dh dw c co. (c + co) mod 2)\<rparr>)
          (StrideInt 1) (PadInt 0) 2 1 ''uint8'' ''int16'' False)
   \<and> (\<exists>conv. snd (generated_kernel
          \<lparr>tile_co = (1, 8), tile_oh = (2, 2), tile_ow = (2, 2), tile_ci = (2, 8),
           reorder_0 = [0, 1, 2, 3, 4, 5, 6, 7, 8, 9, 10, 11, 12]\<rparr>
          \<lparr>shape4 = (1, 4, 4, 128), at4 = (\<lambda>n h w c. (h + w + c) mod 4)\<rparr>
          (Kernel4 \<lparr>shape4 = (1, 1, 128, 8), at4 = (\<lambda>dh dw c co. (c + co) mod 2)\<rparr>)
          (StrideInt 1) (PadInt 0) 2 1 ''uint8'' ''int16'' False) = Inr conv)"
proof -
  have v1: "valid_config \<lparr>tile_co = (1, 8), tile_oh = (2, 2), tile_ow = (2, 2), tile_ci = (2, 8),
           reorder_0 = [0, 1, 2, 3, 4, 5, 6, 7, 8, 9, 10, 11, 12]\<rparr> 4 4 8 16"
    by (simp add: valid_config_def tile_co_space_def tile_oh_space_def tile_ow_space_def
        tile_ci_space_def define_split_def mem_split_candidates reorder_0_space_eq)
  have v2: "valid_config \<lparr>tile_co = (1, 8), tile_oh = (1, 4), tile_ow = (1, 4), tile_ci = (1, 16),
           reorder_0 = [0, 1, 2, 3, 4, 5, 7, 6, 8, 9, 10, 11, 12]\<rparr> 4 4 8 16"
    by (simp add: valid_config_def tile_co_space_def tile_oh_space_def tile_ow_space_def
        tile_ci_space_def define_split_def mem_split_candidates reorder_0_space_eq)
  have s: "fst (shape4 \<lparr>shape4 = (1, 4, 4, 128), at4 = (\<lambda>n h w c. (h + w + c) mod 4)\<rparr>) = 1
           \<and> ''uint8'' = ''uint8'' \<and> ''int16'' = ''int16''
           \<and> fst (strides (StrideInt 1)) \<noteq> 0 \<and> snd (strides (StrideInt 1)) \<noteq> 0"
    by (simp add: strides_def)
  show ?thesis
    using configuration_invariance[OF v1 v2,
        of "\<lparr>shape4 = (1, 4, 4, 128), at4 = (\<lambda>n h w c. (h + w + c) mod 4)\<rparr>"
           "Kernel4 \<lparr>shape4 = (1, 1, 128, 8), at4 = (\<lambda>dh dw c co. (c + co) mod 2)\<rparr>"
           "StrideInt 1" "PadInt 0" 2 1 "''uint8''" "''int16''" False] s
    by blast
qed


section \<open>Widened operands\<close>



end
